theory Spec2Isabelle
  imports Complex_Main
begin

text \<open>
  A model of the chunking and vector-index layer of the dictation tool
  (\<open>src/dictate/vector_store.py\<close>): the chunker \<open>chunk_text\<close> and the operations
  \<open>add_transcript\<close>, \<open>remove_transcript\<close> and \<open>search_similar\<close> of
  \<open>VectorStoreManager\<close>, followed by the properties the design document states about
  them. The embedding provider, the file system, the digest and the collection's
  nearest-neighbour query are parameters; the collection itself is an association
  list from ids to stored items.
\<close>

section \<open>Python strings: whitespace, slices, reverse search\<close>

text \<open>
  A Python \<open>str\<close> is modelled as a \<open>string\<close>; a \<open>char\<close> stands for a code point
  below 256. \<open>isspace\<close> lists the code points below 256 that \<open>str.strip()\<close> removes.
\<close>

definition isspace :: "char \<Rightarrow> bool" where
  "isspace c = (of_char c \<in> {9, 10, 11, 12, 13, 28, 29, 30, 31, 32, 133, 160 :: nat})"

definition strip :: "string \<Rightarrow> string" where
  "strip s = rev (dropWhile isspace (rev (dropWhile isspace s)))"

text \<open>
  Python clamps the bounds of a slice: a negative bound counts from the end of the
  sequence, and the result is cut to the range \<open>0..len\<close>.
\<close>

definition norm_index :: "int \<Rightarrow> nat \<Rightarrow> nat" where
  "norm_index i n =
     (if i < 0 then (if i + int n < 0 then 0 else nat (i + int n))
      else (if int n < i then n else nat i))"

definition slice :: "'a list \<Rightarrow> int \<Rightarrow> int \<Rightarrow> 'a list" where
  "slice xs a b =
     (let lo = norm_index a (length xs); hi = norm_index b (length xs)
      in take (hi - lo) (drop lo xs))"

text \<open>
  \<open>text.rfind(c, a, b)\<close> for a single character: the highest index in the clamped
  range \<open>[a, b)\<close> that holds \<open>c\<close>, or \<open>-1\<close>.
\<close>

fun rfind_range :: "string \<Rightarrow> char \<Rightarrow> nat \<Rightarrow> nat \<Rightarrow> int" where
  "rfind_range s c lo 0 = - 1"
| "rfind_range s c lo (Suc h) =
     (if h < lo then - 1 else if s ! h = c then int h else rfind_range s c lo h)"

definition rfind :: "string \<Rightarrow> char \<Rightarrow> int \<Rightarrow> int \<Rightarrow> int" where
  "rfind s c a b = rfind_range s c (norm_index a (length s)) (norm_index b (length s))"

section \<open>Python floats\<close>

text \<open>
  A Python \<open>float\<close> is an IEEE 754 binary64 value: a finite number, an infinity or
  NaN. A finite value is kept as the real number it denotes (the two zeros compare
  equal in Python and are one value here).
\<close>

datatype double = Fin real | PInf | NInf | NaN

text \<open>Rounding a real to the nearest integer, a tie going to the even one.\<close>

definition rne :: "real \<Rightarrow> int" where
  "rne x =
     (let f = \<lfloor>x\<rfloor>; r = x - of_int f
      in if r < 1 / 2 then f else if 1 / 2 < r then f + 1 else if even f then f else f + 1)"

text \<open>
  The exponent of the binade of a magnitude \<open>a\<close>: the \<open>e\<close> with
  \<open>2 ^ e \<le> a < 2 ^ (e + 1)\<close>, kept within the exponent range \<open>-1022..1023\<close> of
  binary64 (below \<open>2 ^ -1022\<close> the values are subnormal and share the exponent
  \<open>-1022\<close>). It is searched upwards from 0 or downwards from -1.
\<close>

fun exp_up :: "nat \<Rightarrow> real \<Rightarrow> int \<Rightarrow> int" where
  "exp_up 0 a e = e"
| "exp_up (Suc n) a e = (if a < 2 powi (e + 1) then e else exp_up n a (e + 1))"

fun exp_down :: "nat \<Rightarrow> real \<Rightarrow> int \<Rightarrow> int" where
  "exp_down 0 a e = e"
| "exp_down (Suc n) a e = (if 2 powi e \<le> a then e else exp_down n a (e - 1))"

definition binade :: "real \<Rightarrow> int" where
  "binade a = (if 1 \<le> a then exp_up 1023 a 0 else exp_down 1021 a (- 1))"

text \<open>
  Rounding to binary64, to nearest with ties to even: a magnitude is rounded to a
  multiple of the spacing \<open>2 ^ (e - 52)\<close> of its binade (53 significant bits), and a
  rounded magnitude of \<open>2 ^ 1024\<close> or more overflows to an infinity.
\<close>

definition magnitude64 :: "real \<Rightarrow> real" where
  "magnitude64 a = (let q = 2 powi (binade a - 52) in q * of_int (rne (a / q)))"

definition round64 :: "real \<Rightarrow> double" where
  "round64 x =
     (let m = magnitude64 \<bar>x\<bar>
      in if 2 powi 1024 \<le> m then (if 0 < x then PInf else NInf)
         else Fin (if 0 < x then m else - m))"

text \<open>The float operations of \<open>search_similar\<close>: \<open>a - b\<close>, \<open>a <= b\<close>, \<open>a < b\<close> and
  \<open>a >= b\<close>. Every comparison with NaN is false.\<close>

fun dsub :: "double \<Rightarrow> double \<Rightarrow> double" where
  "dsub (Fin x) (Fin y) = round64 (x - y)"
| "dsub NaN b = NaN"
| "dsub a NaN = NaN"
| "dsub PInf PInf = NaN"
| "dsub NInf NInf = NaN"
| "dsub PInf b = PInf"
| "dsub NInf b = NInf"
| "dsub (Fin x) PInf = NInf"
| "dsub (Fin x) NInf = PInf"

fun dle :: "double \<Rightarrow> double \<Rightarrow> bool" where
  "dle (Fin x) (Fin y) = (x \<le> y)"
| "dle NaN b = False"
| "dle a NaN = False"
| "dle NInf b = True"
| "dle a PInf = True"
| "dle a b = False"

fun dlt :: "double \<Rightarrow> double \<Rightarrow> bool" where
  "dlt (Fin x) (Fin y) = (x < y)"
| "dlt NaN b = False"
| "dlt a NaN = False"
| "dlt PInf b = False"
| "dlt a NInf = False"
| "dlt a b = True"

definition dge :: "double \<Rightarrow> double \<Rightarrow> bool" where
  "dge a b = dle b a"

section \<open>The chunker\<close>

text \<open>
  \<open>VectorStoreManager.chunk_text\<close>. The \<open>while\<close> loop is \<open>chunk_loop\<close>, over the loop
  variables \<open>start\<close> and \<open>chunks\<close>; a run of the loop that never ends is the value
  \<open>None\<close>. Sizes and positions are Python integers.
\<close>

definition chunk_step :: "string \<Rightarrow> int \<Rightarrow> int \<Rightarrow> int \<Rightarrow> string list \<Rightarrow> int \<times> string list" where
  "chunk_step text chunk_size chunk_overlap start chunks =
     (let end0 = start + chunk_size;
          endp = (if end0 < int (length text)
                  then (let last_space = rfind text (CHR '' '') start end0
                        in if start < last_space then last_space else end0)
                  else end0);
          chunk = strip (slice text start endp);
          chunks' = (if chunk \<noteq> [] then chunks @ [chunk] else chunks);
          start0 = endp - chunk_overlap;
          start' = (if start0 \<le> 0 then endp else start0)
      in (start', chunks'))"

partial_function (option) chunk_loop ::
  "string \<Rightarrow> int \<Rightarrow> int \<Rightarrow> int \<Rightarrow> string list \<Rightarrow> string list option" where
  "chunk_loop text chunk_size chunk_overlap start chunks =
     (if start < int (length text) then
        (case chunk_step text chunk_size chunk_overlap start chunks of
           (start', chunks') \<Rightarrow> chunk_loop text chunk_size chunk_overlap start' chunks')
      else Some chunks)"

definition chunk_text :: "string \<Rightarrow> int \<Rightarrow> int \<Rightarrow> string list option" where
  "chunk_text text chunk_size chunk_overlap =
     (if int (length text) \<le> chunk_size then Some [text]
      else chunk_loop text chunk_size chunk_overlap 0 [])"

section \<open>Paths, files, the embedding provider\<close>

text \<open>
  A \<open>pathlib.Path\<close> is read through three projections only: \<open>str(p)\<close>,
  \<open>str(p.absolute())\<close> and \<open>p.name\<close>.
\<close>

record path =
  path_str :: string
  path_abs :: string
  path_name :: string

text \<open>What \<open>exists()\<close>, \<open>open\<close> and \<open>read\<close> find at a path.\<close>

datatype file_state = Absent | Unreadable | Content string

text \<open>The exceptions that the capabilities and the list accesses can raise.\<close>

datatype exn = OSError | ProviderError | StoreError | IndexError | AttributeError

type_synonym vector = "double list"

text \<open>
  A transcriber object either has a \<open>get_embedding\<close> method or has none
  (\<open>hasattr\<close>); the method returns a vector, returns \<open>None\<close>, or raises.
\<close>

datatype transcriber = Transcriber "(string \<Rightarrow> exn + vector option) option"

fun get_embedding :: "transcriber \<Rightarrow> (string \<Rightarrow> exn + vector option) option" where
  "get_embedding (Transcriber g) = g"

section \<open>The vector collection\<close>

record metadata =
  source_file :: string
  file_name :: string
  chunk_index :: nat
  total_chunks :: nat
  content_hash :: string
  added_date :: string
  chunk_length :: nat

text \<open>
  A stored item: its document, its metadata, and the embedding passed to \<open>upsert\<close>
  (\<open>None\<close> when \<open>upsert\<close> was called without embeddings).
\<close>

record entry =
  document :: string
  meta :: metadata
  embedding :: "vector option option"

type_synonym collection = "(string \<times> entry) list"

text \<open>
  Modelled from the spec: the ChromaDB collection is an external store; the spec
  describes it as a keyed store of (id, document, metadata, vector) with get by id,
  get by metadata filter, delete by ids and upsert (insert if absent, overwrite if
  present). It is kept as an association list from id to item.
\<close>

definition coll_get :: "collection \<Rightarrow> string list \<Rightarrow> collection" where
  "coll_get c ids = filter (\<lambda>(k, e). k \<in> set ids) c"

definition coll_get_where :: "collection \<Rightarrow> string \<Rightarrow> collection" where
  "coll_get_where c src = filter (\<lambda>(k, e). source_file (meta e) = src) c"

definition coll_delete :: "collection \<Rightarrow> string list \<Rightarrow> collection" where
  "coll_delete c ids = filter (\<lambda>(k, e). k \<notin> set ids) c"

fun coll_put :: "collection \<Rightarrow> string \<Rightarrow> entry \<Rightarrow> collection" where
  "coll_put [] k e = [(k, e)]"
| "coll_put ((k', e') # c) k e =
     (if k' = k then (k, e) # c else (k', e') # coll_put c k e)"

fun coll_upsert :: "collection \<Rightarrow> (string \<times> entry) list \<Rightarrow> collection" where
  "coll_upsert c [] = c"
| "coll_upsert c ((k, e) # kes) = coll_upsert (coll_put c k e) kes"

text \<open>
  Each call of the store may raise. A public operation calls each store method at
  most once, so one flag per method says whether that call raises; a call that raises
  leaves the collection as it was.
\<close>

record env =
  read_file :: "path \<Rightarrow> file_state"
  md5_hexdigest :: "string \<Rightarrow> string"
  now_isoformat :: "nat \<Rightarrow> string"
  get_raises :: bool
  upsert_raises :: bool
  delete_raises :: bool

definition store_get :: "env \<Rightarrow> collection \<Rightarrow> string list \<Rightarrow> exn + collection" where
  "store_get env c ids = (if get_raises env then Inl StoreError else Inr (coll_get c ids))"

definition store_get_where :: "env \<Rightarrow> collection \<Rightarrow> string \<Rightarrow> exn + collection" where
  "store_get_where env c src =
     (if get_raises env then Inl StoreError else Inr (coll_get_where c src))"

definition store_delete :: "env \<Rightarrow> collection \<Rightarrow> string list \<Rightarrow> exn + collection" where
  "store_delete env c ids =
     (if delete_raises env then Inl StoreError else Inr (coll_delete c ids))"

definition store_upsert ::
  "env \<Rightarrow> collection \<Rightarrow> (string \<times> entry) list \<Rightarrow> exn + collection" where
  "store_upsert env c kes =
     (if upsert_raises env then Inl StoreError else Inr (coll_upsert c kes))"

section \<open>Chunk ids\<close>

text \<open>The decimal rendering of \<open>i\<close> in the f-string \<open>f"{file_id}_{i}"\<close>.\<close>

definition digit_char :: "nat \<Rightarrow> char" where
  "digit_char d = ''0123456789'' ! d"

fun str_nat :: "nat \<Rightarrow> string" where
  "str_nat n = (if n < 10 then [digit_char n] else str_nat (n div 10) @ [digit_char (n mod 10)])"

declare str_nat.simps [simp del]

definition chunk_id :: "string \<Rightarrow> nat \<Rightarrow> string" where
  "chunk_id file_id i = file_id @ ''_'' @ str_nat i"

section \<open>add-transcript\<close>

text \<open>
  What a call leaves behind: the value returned (or, inside the \<open>try\<close>, the exception
  raised), the collection, the number of \<open>get_embedding\<close> calls made and the number of
  \<open>upsert\<close> calls made.
\<close>

record 'a outcome =
  returned :: 'a
  store :: collection
  embed_calls :: nat
  upsert_calls :: nat

text \<open>
  The loop \<open>for chunk in chunks: embeddings.append(transcriber.get_embedding(chunk))\<close>:
  the collected values, or the exception of the first call that raises, with the
  number of calls made.
\<close>

fun embed_chunks ::
  "(string \<Rightarrow> exn + vector option) \<Rightarrow> string list \<Rightarrow> (exn + vector option list) \<times> nat" where
  "embed_chunks g [] = (Inr [], 0)"
| "embed_chunks g (chunk # chunks) =
     (case g chunk of
        Inl e \<Rightarrow> (Inl e, 1)
      | Inr v \<Rightarrow>
          (case embed_chunks g chunks of
             (Inl e, n) \<Rightarrow> (Inl e, Suc n)
           | (Inr embeddings, n) \<Rightarrow> (Inr (v # embeddings), Suc n)))"

text \<open>
  Lines 131--140: \<open>embeddings\<close> stays \<open>None\<close> without a transcriber or without the
  method, and is reset to \<open>None\<close> by the inner \<open>except\<close> when a call raises.
\<close>

definition generate_embeddings ::
  "transcriber option \<Rightarrow> string list \<Rightarrow> vector option list option \<times> nat" where
  "generate_embeddings transcriber chunks =
     (case transcriber of
        None \<Rightarrow> (None, 0)
      | Some tr \<Rightarrow>
          (case get_embedding tr of
             None \<Rightarrow> (None, 0)
           | Some g \<Rightarrow>
               (case embed_chunks g chunks of
                  (Inl e, n) \<Rightarrow> (None, n)
                | (Inr embeddings, n) \<Rightarrow> (Some embeddings, n))))"

definition chunk_metadata :: "env \<Rightarrow> path \<Rightarrow> string \<Rightarrow> nat \<Rightarrow> nat \<Rightarrow> string \<Rightarrow> metadata" where
  "chunk_metadata env transcript_path hash n i chunk =
     \<lparr>source_file = path_str transcript_path,
      file_name = path_name transcript_path,
      chunk_index = i,
      total_chunks = n,
      content_hash = hash,
      added_date = now_isoformat env i,
      chunk_length = length chunk\<rparr>"

text \<open>
  The arguments of \<open>upsert\<close>: ids, documents and metadata, with the embeddings when
  \<open>embeddings\<close> is a non-empty list.
\<close>

definition upsert_items ::
  "env \<Rightarrow> path \<Rightarrow> string \<Rightarrow> string \<Rightarrow> string list \<Rightarrow> vector option list option
   \<Rightarrow> (string \<times> entry) list" where
  "upsert_items env transcript_path file_id hash chunks embeddings =
     map (\<lambda>i. (chunk_id file_id i,
                \<lparr>document = chunks ! i,
                 meta = chunk_metadata env transcript_path hash (length chunks) i (chunks ! i),
                 embedding = (case embeddings of
                                None \<Rightarrow> None
                              | Some es \<Rightarrow> if es = [] then None else Some (es ! i))\<rparr>))
         [0..<length chunks]"

text \<open>
  Lines 121--123: the test on the result of \<open>get\<close> that makes \<open>add_transcript\<close> return
  early.
\<close>

definition already_up_to_date :: "collection \<Rightarrow> string \<Rightarrow> bool" where
  "already_up_to_date existing hash =
     (existing \<noteq> [] \<and> content_hash (meta (snd (hd existing))) = hash)"

definition add_transcript_try ::
  "env \<Rightarrow> collection \<Rightarrow> path \<Rightarrow> transcriber option \<Rightarrow> (exn + bool) outcome option" where
  "add_transcript_try env c transcript_path transcriber =
     (case read_file env transcript_path of
        Absent \<Rightarrow>
          Some \<lparr>returned = Inr False, store = c, embed_calls = 0, upsert_calls = 0\<rparr>
      | Unreadable \<Rightarrow>
          Some \<lparr>returned = Inl OSError, store = c, embed_calls = 0, upsert_calls = 0\<rparr>
      | Content raw \<Rightarrow>
          (let content = strip raw in
           if content = [] then
             Some \<lparr>returned = Inr False, store = c, embed_calls = 0, upsert_calls = 0\<rparr>
           else
             (let file_id = path_abs transcript_path;
                  hash = md5_hexdigest env content
              in case store_get env c [file_id] of
                   Inl e \<Rightarrow>
                     Some \<lparr>returned = Inl e, store = c, embed_calls = 0, upsert_calls = 0\<rparr>
                 | Inr existing \<Rightarrow>
                     if already_up_to_date existing hash then
                       Some \<lparr>returned = Inr True, store = c, embed_calls = 0, upsert_calls = 0\<rparr>
                     else
                       (case chunk_text content 500 50 of
                          None \<Rightarrow> None
                        | Some chunks \<Rightarrow>
                            (case generate_embeddings transcriber chunks of
                               (embeddings, calls) \<Rightarrow>
                                 (case store_upsert env c
                                         (upsert_items env transcript_path file_id hash
                                            chunks embeddings) of
                                    Inl e \<Rightarrow>
                                      Some \<lparr>returned = Inl e, store = c,
                                            embed_calls = calls, upsert_calls = 1\<rparr>
                                  | Inr c' \<Rightarrow>
                                      Some \<lparr>returned = Inr True, store = c',
                                            embed_calls = calls, upsert_calls = 1\<rparr>))))))"

text \<open>The handler \<open>except Exception: return False\<close> around the whole body.\<close>

definition add_transcript ::
  "env \<Rightarrow> collection \<Rightarrow> path \<Rightarrow> transcriber option \<Rightarrow> bool outcome option" where
  "add_transcript env c transcript_path transcriber =
     map_option
       (\<lambda>out. \<lparr>returned = (case returned out of Inl e \<Rightarrow> False | Inr b \<Rightarrow> b),
               store = store out, embed_calls = embed_calls out,
               upsert_calls = upsert_calls out\<rparr>)
       (add_transcript_try env c transcript_path transcriber)"

section \<open>remove-transcript\<close>

definition remove_transcript_try :: "env \<Rightarrow> collection \<Rightarrow> path \<Rightarrow> (exn + bool) \<times> collection" where
  "remove_transcript_try env c transcript_path =
     (case store_get_where env c (path_str transcript_path) of
        Inl e \<Rightarrow> (Inl e, c)
      | Inr results \<Rightarrow>
          if map fst results \<noteq> [] then
            (case store_delete env c (map fst results) of
               Inl e \<Rightarrow> (Inl e, c)
             | Inr c' \<Rightarrow> (Inr True, c'))
          else (Inr False, c))"

definition remove_transcript :: "env \<Rightarrow> collection \<Rightarrow> path \<Rightarrow> bool \<times> collection" where
  "remove_transcript env c transcript_path =
     (case remove_transcript_try env c transcript_path of
        (Inl e, c') \<Rightarrow> (False, c')
      | (Inr b, c') \<Rightarrow> (b, c'))"

section \<open>search-similar\<close>

text \<open>
  The collection's nearest-neighbour query is an external capability: it is a
  parameter, called with the query embedding or the query text and with
  \<open>n_results = limit\<close>, and it returns the lists below or raises. Distances,
  similarities and the threshold are Python floats.
\<close>

datatype query_input = QueryEmbeddings vector | QueryTexts string

record query_result =
  ids :: "string list list"
  documents :: "string list list"
  metadatas :: "metadata list list"
  distances :: "double list list option"

record search_result =
  res_id :: string
  res_content :: string
  res_metadata :: metadata
  similarity :: double
  distance :: double

type_synonym query_fn = "query_input \<Rightarrow> int \<Rightarrow> exn + query_result"

text \<open>Lines 194--215: which query is run.\<close>

definition run_query ::
  "query_fn \<Rightarrow> string \<Rightarrow> int \<Rightarrow> transcriber option \<Rightarrow> exn + query_result" where
  "run_query query q limit transcriber =
     (case transcriber of
        None \<Rightarrow> query (QueryTexts q) limit
      | Some tr \<Rightarrow>
          (case get_embedding tr of
             None \<Rightarrow> Inl AttributeError
           | Some g \<Rightarrow>
               (case g q of
                  Inl e \<Rightarrow> Inl e
                | Inr query_embedding \<Rightarrow>
                    (case query_embedding of
                       None \<Rightarrow> query (QueryTexts q) limit
                     | Some v \<Rightarrow>
                         if v \<noteq> [] then query (QueryEmbeddings v) limit
                         else query (QueryTexts q) limit))))"

text \<open>\<open>xss[0][i]\<close>, raising \<open>IndexError\<close> out of range.\<close>

definition item0 :: "'a list list \<Rightarrow> nat \<Rightarrow> exn + 'a" where
  "item0 xss i =
     (case xss of
        [] \<Rightarrow> Inl IndexError
      | xs # _ \<Rightarrow> if i < length xs then Inr (xs ! i) else Inl IndexError)"

text \<open>\<open>results['distances'][0][i] if results['distances'] else 0\<close>.\<close>

definition neighbour_distance :: "query_result \<Rightarrow> nat \<Rightarrow> exn + double" where
  "neighbour_distance results i =
     (case distances results of
        None \<Rightarrow> Inr (Fin 0)
      | Some ds \<Rightarrow> if ds = [] then Inr (Fin 0) else item0 ds i)"

text \<open>
  The loop over \<open>enumerate(results['ids'][0])\<close>, from index \<open>i\<close> on:
  \<open>similarity = 1.0 - distance\<close> is a float subtraction and
  \<open>similarity >= threshold\<close> a float comparison.
\<close>

fun collect_results ::
  "query_result \<Rightarrow> double \<Rightarrow> nat \<Rightarrow> string list \<Rightarrow> exn + search_result list" where
  "collect_results results threshold i [] = Inr []"
| "collect_results results threshold i (doc_id # rest) =
     (case neighbour_distance results i of
        Inl e \<Rightarrow> Inl e
      | Inr d \<Rightarrow>
          (let sim = dsub (Fin 1) d in
           if dge sim threshold then
             (case item0 (documents results) i of
                Inl e \<Rightarrow> Inl e
              | Inr content \<Rightarrow>
                  (case item0 (metadatas results) i of
                     Inl e \<Rightarrow> Inl e
                   | Inr m \<Rightarrow>
                       (case collect_results results threshold (Suc i) rest of
                          Inl e \<Rightarrow> Inl e
                        | Inr found \<Rightarrow>
                            Inr (\<lparr>res_id = doc_id, res_content = content, res_metadata = m,
                                  similarity = sim, distance = d\<rparr> # found))))
           else collect_results results threshold (Suc i) rest))"

text \<open>\<open>results['ids'][0]\<close> when \<open>results['ids'] and results['ids'][0]\<close> holds, else nothing.\<close>

definition neighbours :: "query_result \<Rightarrow> string list" where
  "neighbours results = (case ids results of [] \<Rightarrow> [] | xs # _ \<Rightarrow> xs)"

definition search_similar_try ::
  "query_fn \<Rightarrow> string \<Rightarrow> int \<Rightarrow> double \<Rightarrow> transcriber option \<Rightarrow> exn + search_result list" where
  "search_similar_try query q limit threshold transcriber =
     (case run_query query q limit transcriber of
        Inl e \<Rightarrow> Inl e
      | Inr results \<Rightarrow> collect_results results threshold 0 (neighbours results))"

text \<open>The handler \<open>except Exception: return []\<close>.\<close>

definition search_similar ::
  "query_fn \<Rightarrow> string \<Rightarrow> int \<Rightarrow> double \<Rightarrow> transcriber option \<Rightarrow> search_result list" where
  "search_similar query q limit threshold transcriber =
     (case search_similar_try query q limit threshold transcriber of
        Inl e \<Rightarrow> []
      | Inr search_results \<Rightarrow> search_results)"

text \<open>\<open>results['distances'][0]\<close>, the distances of the neighbours of the one query, when the
  field is a non-empty list.\<close>

definition distances0 :: "query_result \<Rightarrow> double list" where
  "distances0 results =
     (case distances results of
        None \<Rightarrow> []
      | Some ds \<Rightarrow> (case ds of [] \<Rightarrow> [] | d # _ \<Rightarrow> d))"

section \<open>The transcript record\<close>

text \<open>
  The chunks of a source file are the items stored under the ids \<open>file_id_0\<close>,
  \<open>file_id_1\<close>, ... The record of \<open>file_id\<close> is in order when, for some \<open>N\<close>, the ids
  present are exactly those of the indices below \<open>N\<close> (\<open>N = 0\<close>: no chunk) and all its
  chunks carry the same \<open>content_hash\<close>.
\<close>

definition transcript_record_ok :: "collection \<Rightarrow> string \<Rightarrow> bool" where
  "transcript_record_ok c file_id =
     (\<exists>N. (\<forall>i. (chunk_id file_id i \<in> fst ` set c) = (i < N))
          \<and> (\<forall>i j e e'. (chunk_id file_id i, e) \<in> set c \<longrightarrow> (chunk_id file_id j, e') \<in> set c
                \<longrightarrow> content_hash (meta e) = content_hash (meta e')))"

text \<open>All chunks of \<open>file_id\<close> name the same \<open>source_file\<close>.\<close>

definition one_source :: "collection \<Rightarrow> string \<Rightarrow> bool" where
  "one_source c file_id =
     (\<forall>i j e e'. (chunk_id file_id i, e) \<in> set c \<longrightarrow> (chunk_id file_id j, e') \<in> set c
        \<longrightarrow> source_file (meta e) = source_file (meta e'))"

definition index_inv :: "collection \<Rightarrow> bool" where
  "index_inv c =
     (distinct (map fst c) \<and> (\<forall>file_id. transcript_record_ok c file_id \<and> one_source c file_id))"

text \<open>
  The content now at the path does not chunk into fewer chunks than the collection
  holds for the path's file id.
\<close>

definition no_shrink :: "env \<Rightarrow> collection \<Rightarrow> path \<Rightarrow> bool" where
  "no_shrink env c transcript_path =
     (\<forall>raw chunks i. read_file env transcript_path = Content raw
        \<longrightarrow> chunk_text (strip raw) 500 50 = Some chunks
        \<longrightarrow> chunk_id (path_abs transcript_path) i \<in> fst ` set c
        \<longrightarrow> i < length chunks)"

text \<open>
  The collections reached from the empty one by calls of \<open>add_transcript\<close> that return
  and do not shrink a record, and calls of \<open>remove_transcript\<close>, in any environment.
\<close>

inductive reachable :: "collection \<Rightarrow> bool" where
  reachable_empty: "reachable []"
| reachable_add:
    "reachable c \<Longrightarrow> no_shrink env c transcript_path
     \<Longrightarrow> add_transcript env c transcript_path transcriber = Some out
     \<Longrightarrow> reachable (store out)"
| reachable_remove:
    "reachable c \<Longrightarrow> remove_transcript env c transcript_path = (b, c')
     \<Longrightarrow> reachable c'"

section \<open>Sample data\<close>

text \<open>Inputs for the worked examples below.\<close>

definition sample_path :: path where
  "sample_path = \<lparr>path_str = ''memo.txt'', path_abs = ''/w/memo.txt'', path_name = ''memo.txt''\<rparr>"

text \<open>The MD5 digests of the three texts used below; \<open>hashlib.md5\<close> itself is a parameter
  of the model.\<close>

definition sample_digest :: "string \<Rightarrow> string" where
  "sample_digest s =
     (if length s = 501 \<and> set s = {CHR ''a''} then ''9b315a8da54c0d44cf4f76162cfea83c''
      else if s = ''b'' then ''92eb5ffee6ae2fec3ad71c777531578f''
      else if s = ''Alice discussed the Q3 roadmap and budget.''
        then ''53d826d38c0e3ecd3b98d75fed08c821''
      else [])"

text \<open>An environment in which the file at every path holds the given content and no store
  call raises.\<close>

definition sample_env :: "string \<Rightarrow> env" where
  "sample_env content =
     \<lparr>read_file = (\<lambda>p. Content content), md5_hexdigest = sample_digest,
      now_isoformat = (\<lambda>i. ''2024-01-01T00:00:00''),
      get_raises = False, upsert_raises = False, delete_raises = False\<rparr>"

text \<open>An environment in which the file is absent and every store call raises.\<close>

definition failing_env :: env where
  "failing_env =
     \<lparr>read_file = (\<lambda>p. Absent), md5_hexdigest = sample_digest,
      now_isoformat = (\<lambda>i. ''2024-01-01T00:00:00''),
      get_raises = True, upsert_raises = True, delete_raises = True\<rparr>"

definition failing_query :: query_fn where
  "failing_query inp n = Inl StoreError"

definition sample_embedder :: transcriber where
  "sample_embedder = Transcriber (Some (\<lambda>s. Inr (Some [Fin 1])))"

definition failing_embedder :: transcriber where
  "failing_embedder = Transcriber (Some (\<lambda>s. Inl ProviderError))"

text \<open>The item stored for the sample memo, with the embedding given to \<open>upsert\<close>, and the
  collection after the memo has been added once with \<open>sample_embedder\<close>.\<close>

definition memo_entry :: "vector option option \<Rightarrow> entry" where
  "memo_entry emb =
     \<lparr>document = ''Alice discussed the Q3 roadmap and budget.'',
      meta = \<lparr>source_file = ''memo.txt'', file_name = ''memo.txt'', chunk_index = 0,
              total_chunks = 1, content_hash = ''53d826d38c0e3ecd3b98d75fed08c821'',
              added_date = ''2024-01-01T00:00:00'', chunk_length = 42\<rparr>,
      embedding = emb\<rparr>"

definition memo_store :: collection where
  "memo_store = [(''/w/memo.txt_0'', memo_entry (Some (Some [Fin 1])))]"

text \<open>A text of 501 letters, cut into two chunks; the collection after it has been added
  without a transcriber; and the collection after the file has then been rewritten to
  \<open>b\<close> and added again.\<close>

definition long_text :: string where
  "long_text = replicate 501 (CHR ''a'')"

definition long_entry :: "nat \<Rightarrow> nat \<Rightarrow> entry" where
  "long_entry i len =
     \<lparr>document = replicate len (CHR ''a''),
      meta = \<lparr>source_file = ''memo.txt'', file_name = ''memo.txt'', chunk_index = i,
              total_chunks = 2, content_hash = ''9b315a8da54c0d44cf4f76162cfea83c'',
              added_date = ''2024-01-01T00:00:00'', chunk_length = len\<rparr>,
      embedding = None\<rparr>"

definition long_store :: collection where
  "long_store = [(''/w/memo.txt_0'', long_entry 0 500), (''/w/memo.txt_1'', long_entry 1 51)]"

definition shrunk_store :: collection where
  "shrunk_store =
     [(''/w/memo.txt_0'',
       \<lparr>document = ''b'',
        meta = \<lparr>source_file = ''memo.txt'', file_name = ''memo.txt'', chunk_index = 0,
                total_chunks = 1, content_hash = ''92eb5ffee6ae2fec3ad71c777531578f'',
                added_date = ''2024-01-01T00:00:00'', chunk_length = 1\<rparr>,
        embedding = None\<rparr>),
      (''/w/memo.txt_1'', long_entry 1 51)]"

text \<open>The floats \<open>0.1\<close> and \<open>0.9\<close>: the binary64 values nearest to one tenth and to nine
  tenths.\<close>

definition tenth :: double where
  "tenth = Fin (3602879701896397 / 2 ^ 55)"

definition nine_tenths :: double where
  "nine_tenths = Fin (8106479329266893 / 2 ^ 53)"

text \<open>A stored metadata value and two query capabilities, one that reports distances and
  one that does not. Both raise for \<open>n_results\<close> below 1 and return at most \<open>n_results\<close>
  neighbours, nearest first.\<close>

definition sample_meta :: metadata where
  "sample_meta =
     \<lparr>source_file = ''memo.txt'', file_name = ''memo.txt'', chunk_index = 0, total_chunks = 1,
      content_hash = ''h'', added_date = ''2024-01-01T00:00:00'', chunk_length = 4\<rparr>"

definition sample_query :: query_fn where
  "sample_query inp n =
     (if n \<le> 0 then Inl StoreError
      else Inr \<lparr>ids = [take (nat n) [''memo.txt_0'', ''note.txt_0'']],
                documents = [take (nat n) [''memo'', ''note'']],
                metadatas = [take (nat n) [sample_meta, sample_meta]],
                distances = Some [take (nat n) [tenth, Fin (3 / 4)]]\<rparr>)"

definition sample_query_no_distances :: query_fn where
  "sample_query_no_distances inp n =
     (if n \<le> 0 then Inl StoreError
      else Inr \<lparr>ids = [take (nat n) [''memo.txt_0'', ''note.txt_0'']],
                documents = [take (nat n) [''memo'', ''note'']],
                metadatas = [take (nat n) [sample_meta, sample_meta]],
                distances = None\<rparr>)"

section \<open>Facts about floats\<close>

lemma rne_of_int: "rne (of_int n) = n"
  by (simp add: rne_def)

lemma rne_cases: "rne x = \<lfloor>x\<rfloor> \<or> rne x = \<lfloor>x\<rfloor> + 1"
  by (simp add: rne_def Let_def)

lemma rne_mono: "x \<le> y \<Longrightarrow> rne x \<le> rne y"
proof -
  assume xy: "x \<le> y"
  then have fl: "\<lfloor>x\<rfloor> \<le> \<lfloor>y\<rfloor>" by (rule floor_mono)
  show ?thesis
  proof (cases "\<lfloor>x\<rfloor> < \<lfloor>y\<rfloor>")
    case True
    with rne_cases [of x] rne_cases [of y] show ?thesis by auto
  next
    case False
    with fl have eq: "\<lfloor>x\<rfloor> = \<lfloor>y\<rfloor>" by simp
    with xy show ?thesis by (auto simp: rne_def Let_def)
  qed
qed

lemma rne_lower: "of_int n \<le> x \<Longrightarrow> n \<le> rne x"
  using rne_mono [of "of_int n" x] by (simp add: rne_of_int)

lemma rne_upper: "x \<le> of_int n \<Longrightarrow> rne x \<le> n"
  using rne_mono [of x "of_int n"] by (simp add: rne_of_int)

lemma exp_up_spec:
  "e \<le> exp_up n a e \<and> exp_up n a e \<le> e + int n
   \<and> (2 powi e \<le> a \<longrightarrow> 2 powi (exp_up n a e) \<le> a)
   \<and> (exp_up n a e < e + int n \<longrightarrow> a < 2 powi (exp_up n a e + 1))"
proof (induction n arbitrary: e)
  case 0
  show ?case by simp
next
  case (Suc n)
  show ?case
  proof (cases "a < 2 powi (e + 1)")
    case True
    then show ?thesis by simp
  next
    case False
    with Suc [of "e + 1"] show ?thesis by (auto simp: add.assoc)
  qed
qed

lemma exp_down_spec:
  "exp_down n a e \<le> e \<and> e - int n \<le> exp_down n a e
   \<and> (a < 2 powi (e + 1) \<longrightarrow> a < 2 powi (exp_down n a e + 1))
   \<and> (e - int n < exp_down n a e \<longrightarrow> 2 powi (exp_down n a e) \<le> a)"
proof (induction n arbitrary: e)
  case 0
  show ?case by simp
next
  case (Suc n)
  show ?case
  proof (cases "2 powi e \<le> a")
    case True
    then show ?thesis by simp
  next
    case False
    with Suc [of "e - 1"] show ?thesis by auto
  qed
qed

lemma binade_range: "- 1022 \<le> binade a \<and> binade a \<le> 1023"
  using exp_up_spec [of 0 1023 a] exp_down_spec [of 1021 a "- 1"]
  by (auto simp: binade_def)

lemma binade_lower: "- 1022 < binade a \<Longrightarrow> 2 powi (binade a) \<le> a"
  using exp_up_spec [of 0 1023 a] exp_down_spec [of 1021 a "- 1"]
  by (auto simp: binade_def)

lemma binade_upper: "binade a < 1023 \<Longrightarrow> a < 2 powi (binade a + 1)"
  using exp_up_spec [of 0 1023 a] exp_down_spec [of 1021 a "- 1"]
  by (auto simp: binade_def)

lemma binade_mono: "a \<le> b \<Longrightarrow> binade a \<le> binade b"
proof (rule ccontr)
  assume ab: "a \<le> b" and "\<not> binade a \<le> binade b"
  then have lt: "binade b < binade a" by simp
  with binade_range [of b] have "- 1022 < binade a" by simp
  then have "2 powi (binade a) \<le> a" by (rule binade_lower)
  moreover from lt binade_range [of a] have "binade b < 1023" by simp
  then have "b < 2 powi (binade b + 1)" by (rule binade_upper)
  moreover from lt have "(2::real) powi (binade b + 1) \<le> 2 powi (binade a)"
    by (intro power_int_increasing) simp_all
  ultimately show False using ab by simp
qed

lemma binade_eqI:
  assumes "- 1022 \<le> e" and "e \<le> 1023" and "2 powi e \<le> a" and "a < 2 powi (e + 1)"
  shows "binade a = e"
proof (rule ccontr)
  assume "binade a \<noteq> e"
  then consider "binade a < e" | "e < binade a" by linarith
  then show False
  proof cases
    case 1
    with assms(2) have "binade a < 1023" by simp
    then have "a < 2 powi (binade a + 1)" by (rule binade_upper)
    moreover from 1 have "(2::real) powi (binade a + 1) \<le> 2 powi e"
      by (intro power_int_increasing) simp_all
    ultimately show False using assms(3) by simp
  next
    case 2
    with assms(1) have "- 1022 < binade a" by simp
    then have "2 powi (binade a) \<le> a" by (rule binade_lower)
    moreover from 2 have "(2::real) powi (e + 1) \<le> 2 powi (binade a)"
      by (intro power_int_increasing) simp_all
    ultimately show False using assms(4) by simp
  qed
qed

lemma quantum_times: "(2::real) powi (e - 52) * 2 powi k = 2 powi (e - 52 + k)"
  by (simp add: power_int_add)

lemma magnitude64_nonneg: "0 \<le> a \<Longrightarrow> 0 \<le> magnitude64 a"
proof -
  assume "0 \<le> a"
  then have "of_int 0 \<le> a / 2 powi (binade a - 52)" by simp
  then have "0 \<le> rne (a / 2 powi (binade a - 52))" by (rule rne_lower)
  then show ?thesis by (simp add: magnitude64_def Let_def)
qed

lemma magnitude64_upper:
  assumes "0 \<le> a" and "binade a < 1023"
  shows "magnitude64 a \<le> 2 powi (binade a + 1)"
proof -
  define q where "q = (2::real) powi (binade a - 52)"
  define K where "K = (2::real) powi 53"
  have q: "0 < q" by (simp add: q_def)
  have K: "K = of_int (2 ^ 53)" by (simp add: K_def)
  have "q * K = 2 powi (binade a - 52 + 53)" unfolding q_def K_def by (rule quantum_times)
  moreover have "binade a - 52 + 53 = binade a + 1" by simp
  ultimately have qK: "q * K = 2 powi (binade a + 1)" by (simp only:)
  from assms(2) have "a < 2 powi (binade a + 1)" by (rule binade_upper)
  with qK have "a < q * K" by simp
  with q have "a / q \<le> K" by (simp add: field_simps)
  then have "rne (a / q) \<le> 2 ^ 53" unfolding K by (rule rne_upper)
  then have "real_of_int (rne (a / q)) \<le> K" unfolding K by linarith
  then have "q * real_of_int (rne (a / q)) \<le> q * K"
    using q by (intro mult_left_mono) simp_all
  with qK show ?thesis by (simp add: magnitude64_def Let_def q_def)
qed

lemma magnitude64_lower:
  assumes "- 1022 < binade a"
  shows "2 powi (binade a) \<le> magnitude64 a"
proof -
  define q where "q = (2::real) powi (binade a - 52)"
  define K where "K = (2::real) powi 52"
  have q: "0 < q" by (simp add: q_def)
  have K: "K = of_int (2 ^ 52)" by (simp add: K_def)
  have "q * K = 2 powi (binade a - 52 + 52)" unfolding q_def K_def by (rule quantum_times)
  then have qK: "q * K = 2 powi (binade a)" by simp
  from assms have "2 powi (binade a) \<le> a" by (rule binade_lower)
  with qK have "q * K \<le> a" by simp
  with q have "K \<le> a / q" by (simp add: field_simps)
  then have "2 ^ 52 \<le> rne (a / q)" unfolding K by (rule rne_lower)
  then have "K \<le> real_of_int (rne (a / q))" unfolding K by linarith
  then have "q * K \<le> q * real_of_int (rne (a / q))"
    using q by (intro mult_left_mono) simp_all
  with qK show ?thesis by (simp add: magnitude64_def Let_def q_def)
qed

lemma magnitude64_mono:
  assumes "0 \<le> a" and "a \<le> b"
  shows "magnitude64 a \<le> magnitude64 b"
proof (cases "binade a = binade b")
  case True
  let ?q = "(2::real) powi (binade b - 52)"
  have q: "0 < ?q" by simp
  from assms(2) q have "a / ?q \<le> b / ?q" by (simp add: divide_right_mono)
  then have "rne (a / ?q) \<le> rne (b / ?q)" by (rule rne_mono)
  then have "?q * real_of_int (rne (a / ?q)) \<le> ?q * real_of_int (rne (b / ?q))"
    using q by (intro mult_left_mono) simp_all
  with True show ?thesis by (simp add: magnitude64_def Let_def)
next
  case False
  with binade_mono [OF assms(2)] have lt: "binade a < binade b" by simp
  with binade_range [of b] have "binade a < 1023" by simp
  with assms(1) have "magnitude64 a \<le> 2 powi (binade a + 1)" by (rule magnitude64_upper)
  also from lt have "(2::real) powi (binade a + 1) \<le> 2 powi (binade b)"
    by (intro power_int_increasing) simp_all
  also from lt binade_range [of a] have "- 1022 < binade b" by simp
  then have "2 powi (binade b) \<le> magnitude64 b" by (rule magnitude64_lower)
  finally show ?thesis .
qed

lemma round64_mono: "x \<le> y \<Longrightarrow> dle (round64 x) (round64 y)"
proof -
  assume xy: "x \<le> y"
  have mx: "0 \<le> magnitude64 \<bar>x\<bar>" and my: "0 \<le> magnitude64 \<bar>y\<bar>"
    by (simp_all add: magnitude64_nonneg)
  consider "0 < x" | "x \<le> 0" "0 < y" | "y \<le> 0" by linarith
  then show ?thesis
  proof cases
    case 1
    with xy have "magnitude64 \<bar>x\<bar> \<le> magnitude64 \<bar>y\<bar>"
      by (intro magnitude64_mono) simp_all
    with 1 xy show ?thesis by (simp add: round64_def Let_def)
  next
    case 2
    with mx my show ?thesis by (simp add: round64_def Let_def)
  next
    case 3
    with xy have "magnitude64 \<bar>y\<bar> \<le> magnitude64 \<bar>x\<bar>"
      by (intro magnitude64_mono) simp_all
    with 3 xy show ?thesis by (simp add: round64_def Let_def)
  qed
qed

lemma round64_not_NaN: "round64 x \<noteq> NaN"
  by (simp add: round64_def Let_def)

lemma dsub_one_antimono: "dle a b \<Longrightarrow> dle (dsub (Fin 1) b) (dsub (Fin 1) a)"
proof (cases a; cases b)
  fix x y
  assume "dle a b" "a = Fin x" "b = Fin y"
  then show ?thesis by (simp add: round64_mono)
next
  fix x
  assume "a = Fin x" "b = PInf"
  then show ?thesis using round64_not_NaN [of "1 - x"] by (cases "round64 (1 - x)") simp_all
next
  fix y
  assume "a = NInf" "b = Fin y"
  then show ?thesis using round64_not_NaN [of "1 - y"] by (cases "round64 (1 - y)") simp_all
qed simp_all

lemma dle_not_dlt: "dle a b \<Longrightarrow> \<not> dlt b a"
  by (cases a; cases b) auto

lemma round64_one: "round64 1 = Fin 1"
proof -
  have "binade 1 = 0" by (rule binade_eqI) simp_all
  then show ?thesis by (simp add: round64_def magnitude64_def rne_def Let_def)
qed

lemma round64_quarter: "round64 (1 / 4) = Fin (1 / 4)"
proof -
  have "binade (1 / 4) = - 2" by (rule binade_eqI) simp_all
  then show ?thesis by (simp add: round64_def magnitude64_def rne_def Let_def)
qed

lemma one_minus_tenth: "dsub (Fin 1) tenth = nine_tenths"
proof -
  have "binade (1 - 3602879701896397 / 2 ^ 55) = - 1" by (rule binade_eqI) simp_all
  then have "round64 (1 - 3602879701896397 / 2 ^ 55) = Fin (8106479329266893 / 2 ^ 53)"
    by (simp add: round64_def magnitude64_def rne_def Let_def)
  then show ?thesis by (simp add: tenth_def nine_tenths_def)
qed

lemma one_minus_zero: "dsub (Fin 1) (Fin 0) = Fin 1"
  by (simp add: round64_one)

lemma one_minus_three_quarters: "dsub (Fin 1) (Fin (3 / 4)) = Fin (1 / 4)"
  using round64_quarter by simp

section \<open>Facts about strings\<close>

lemma dropWhile_fixed: "xs = [] \<or> \<not> P (hd xs) \<Longrightarrow> dropWhile P xs = xs"
  by (cases xs) auto

lemma last_dropWhile_keeps:
  "dropWhile P xs \<noteq> [] \<Longrightarrow> last (dropWhile P xs) = last xs"
  by (induction xs) (auto split: if_splits)

lemma strip_no_leading_space:
  assumes "strip s \<noteq> []"
  shows "\<not> isspace (hd (strip s))"
proof -
  let ?d = "dropWhile isspace s"
  let ?r = "dropWhile isspace (rev ?d)"
  from assms have r: "?r \<noteq> []" by (simp add: strip_def)
  have d: "?d \<noteq> []"
  proof
    assume "?d = []"
    then have "?r = []" by (simp only: rev.simps dropWhile.simps)
    with r show False by simp
  qed
  have "hd (strip s) = last ?r" using r by (simp add: strip_def hd_rev)
  also have "\<dots> = last (rev ?d)" using r by (rule last_dropWhile_keeps)
  also have "\<dots> = hd ?d" using d by (simp add: last_rev)
  finally show ?thesis using d hd_dropWhile [of isspace s] by simp
qed

lemma strip_idem: "strip (strip s) = strip s"
proof -
  let ?r = "dropWhile isspace (rev (dropWhile isspace s))"
  have "dropWhile isspace (strip s) = strip s"
    using strip_no_leading_space [of s] by (intro dropWhile_fixed) auto
  then have "strip (strip s) = rev (dropWhile isspace (rev (strip s)))"
    by (simp add: strip_def)
  also have "rev (strip s) = ?r" by (simp add: strip_def)
  also have "dropWhile isspace ?r = ?r" by (rule dropWhile_idem)
  finally show ?thesis by (simp add: strip_def)
qed

lemma strip_replicate: "\<not> isspace c \<Longrightarrow> strip (replicate n c) = replicate n c"
  by (cases n) (simp_all add: strip_def flip: replicate_Suc)

lemma norm_index_le: "norm_index i n \<le> n"
  by (auto simp: norm_index_def)

lemma rfind_range_last:
  "p < hi \<Longrightarrow> lo \<le> p \<Longrightarrow> s ! p = c \<Longrightarrow> (\<forall>i. p < i \<and> i < hi \<longrightarrow> s ! i \<noteq> c)
   \<Longrightarrow> rfind_range s c lo hi = int p"
proof (induction hi)
  case 0
  then show ?case by simp
next
  case (Suc h)
  show ?case
  proof (cases "h = p")
    case True
    with Suc.prems show ?thesis by simp
  next
    case False
    with Suc.prems have "p < h" by simp
    moreover from Suc.prems \<open>p < h\<close> have "s ! h \<noteq> c" by simp
    ultimately show ?thesis using Suc by simp
  qed
qed

lemma rfind_range_none:
  "(\<forall>i. lo \<le> i \<and> i < hi \<longrightarrow> s ! i \<noteq> c) \<Longrightarrow> rfind_range s c lo hi = - 1"
  by (induction hi) auto

lemma rfind_absent:
  assumes "c \<notin> set s"
  shows "rfind s c a b = - 1"
proof -
  have "\<forall>i. norm_index a (length s) \<le> i \<and> i < norm_index b (length s) \<longrightarrow> s ! i \<noteq> c"
    using assms norm_index_le [of b "length s"] by (metis nth_mem order_less_le_trans)
  then show ?thesis unfolding rfind_def by (rule rfind_range_none)
qed

section \<open>Facts about the chunker\<close>

lemma chunk_step_chunks_stripped:
  "(\<forall>c \<in> set chunks. strip c \<noteq> [])
   \<Longrightarrow> \<forall>c \<in> set (snd (chunk_step t chunk_size chunk_overlap start chunks)). strip c \<noteq> []"
  by (simp add: chunk_step_def Let_def strip_idem)

lemma chunk_loop_chunks_stripped:
  assumes "chunk_loop t chunk_size chunk_overlap start chunks = Some out"
    and "\<forall>c \<in> set chunks. strip c \<noteq> []"
  shows "\<forall>c \<in> set out. strip c \<noteq> []"
proof -
  have "(\<forall>c \<in> set chunks. strip c \<noteq> []) \<longrightarrow> (\<forall>c \<in> set out. strip c \<noteq> [])"
    using assms(1)
  proof (rule chunk_loop.raw_induct [rotated 1,
        where P = "\<lambda>t cs ov st acc r. (\<forall>c \<in> set acc. strip c \<noteq> []) \<longrightarrow> (\<forall>c \<in> set r. strip c \<noteq> [])"])
    fix loop t cs ov st acc r
    assume IH: "\<And>t cs ov st acc r. loop t cs ov st acc = Some r \<Longrightarrow>
                 (\<forall>c \<in> set acc. strip c \<noteq> []) \<longrightarrow> (\<forall>c \<in> set r. strip c \<noteq> [])"
      and step: "(if st < int (length t)
                  then case chunk_step t cs ov st acc of (st', acc') \<Rightarrow> loop t cs ov st' acc'
                  else Some acc) = Some r"
    show "(\<forall>c \<in> set acc. strip c \<noteq> []) \<longrightarrow> (\<forall>c \<in> set r. strip c \<noteq> [])"
    proof (cases "st < int (length t)")
      case False
      with step show ?thesis by simp
    next
      case True
      obtain st' acc' where s: "chunk_step t cs ov st acc = (st', acc')"
        by (cases "chunk_step t cs ov st acc")
      with True step have "loop t cs ov st' acc' = Some r" by simp
      from IH [OF this] chunk_step_chunks_stripped [of acc t cs ov st] s
      show ?thesis by simp
    qed
  qed
  with assms(2) show ?thesis by simp
qed

lemma chunk_step_stuck:
  assumes "0 < start" and "start + chunk_size < int (length t)"
    and "rfind t (CHR '' '') start (start + chunk_size) = start + chunk_overlap"
    and "0 < chunk_overlap"
  shows "fst (chunk_step t chunk_size chunk_overlap start chunks) = start"
  using assms by (simp add: chunk_step_def Let_def)

lemma chunk_loop_stuck:
  assumes "0 < start" and "start < int (length t)" and "start + chunk_size < int (length t)"
    and "rfind t (CHR '' '') start (start + chunk_size) = start + chunk_overlap"
    and "0 < chunk_overlap"
  shows "chunk_loop t chunk_size chunk_overlap start chunks = None"
proof (rule ccontr)
  assume "chunk_loop t chunk_size chunk_overlap start chunks \<noteq> None"
  then obtain out where out: "chunk_loop t chunk_size chunk_overlap start chunks = Some out"
    by auto
  have "\<not> (t = t \<and> chunk_size = chunk_size \<and> chunk_overlap = chunk_overlap \<and> start = start)"
    using out
  proof (rule chunk_loop.raw_induct [rotated 1,
        where P = "\<lambda>t' cs ov st acc r. \<not> (t' = t \<and> cs = chunk_size \<and> ov = chunk_overlap \<and> st = start)"])
    fix loop t' cs ov st acc r
    assume IH: "\<And>t' cs ov st acc r. loop t' cs ov st acc = Some r \<Longrightarrow>
                 \<not> (t' = t \<and> cs = chunk_size \<and> ov = chunk_overlap \<and> st = start)"
      and step: "(if st < int (length t')
                  then case chunk_step t' cs ov st acc of (st', acc') \<Rightarrow> loop t' cs ov st' acc'
                  else Some acc) = Some r"
    show "\<not> (t' = t \<and> cs = chunk_size \<and> ov = chunk_overlap \<and> st = start)"
    proof
      assume eq: "t' = t \<and> cs = chunk_size \<and> ov = chunk_overlap \<and> st = start"
      obtain st' acc' where s: "chunk_step t chunk_size chunk_overlap start acc = (st', acc')"
        by (cases "chunk_step t chunk_size chunk_overlap start acc")
      with chunk_step_stuck [OF assms(1) assms(3) assms(4) assms(5), of acc] have "st' = start"
        by simp
      with eq step s assms(2) have "loop t chunk_size chunk_overlap start acc' = Some r"
        by simp
      from IH [OF this] show False by simp
    qed
  qed
  then show False by simp
qed

section \<open>Facts about the search loop\<close>

lemma collect_results_sound:
  "collect_results results threshold i ks = Inr out \<Longrightarrow> r \<in> set out
   \<Longrightarrow> \<exists>j. i \<le> j \<and> j < i + length ks \<and> res_id r = ks ! (j - i)
          \<and> neighbour_distance results j = Inr (distance r)
          \<and> similarity r = dsub (Fin 1) (distance r) \<and> dge (similarity r) threshold"
proof (induction ks arbitrary: i out)
  case Nil
  then show ?case by simp
next
  case (Cons k ks)
  from Cons.prems(1) obtain d where d: "neighbour_distance results i = Inr d"
    by (cases "neighbour_distance results i") auto
  have later: "\<exists>j. i \<le> j \<and> j < i + length (k # ks) \<and> res_id r = (k # ks) ! (j - i)
          \<and> neighbour_distance results j = Inr (distance r)
          \<and> similarity r = dsub (Fin 1) (distance r) \<and> dge (similarity r) threshold"
    if run: "collect_results results threshold (Suc i) ks = Inr out'" and mem: "r \<in> set out'"
    for out'
  proof -
    from Cons.IH [OF run mem] obtain j where j: "Suc i \<le> j" "j < Suc i + length ks"
      "res_id r = ks ! (j - Suc i)" "neighbour_distance results j = Inr (distance r)"
      "similarity r = dsub (Fin 1) (distance r)" "dge (similarity r) threshold"
      by blast
    from j(1) have "(k # ks) ! (j - i) = ks ! (j - Suc i)"
      by (simp add: nth_Cons' Suc_le_eq)
    with j show ?thesis by (intro exI [of _ j]) simp
  qed
  show ?case
  proof (cases "dge (dsub (Fin 1) d) threshold")
    case False
    with Cons.prems d have "collect_results results threshold (Suc i) ks = Inr out"
      by simp
    from later [OF this Cons.prems(2)] show ?thesis .
  next
    case True
    with Cons.prems(1) d obtain content m found where
      found: "collect_results results threshold (Suc i) ks = Inr found"
      and out: "out = \<lparr>res_id = k, res_content = content, res_metadata = m,
                       similarity = dsub (Fin 1) d, distance = d\<rparr> # found"
      by (auto simp: Let_def split: sum.splits)
    show ?thesis
    proof (cases "r \<in> set found")
      case True
      from later [OF found this] show ?thesis .
    next
      case False
      with Cons.prems(2) out have "r = \<lparr>res_id = k, res_content = content, res_metadata = m,
                       similarity = dsub (Fin 1) d, distance = d\<rparr>"
        by simp
      with d True show ?thesis by (intro exI [of _ i]) simp
    qed
  qed
qed

lemma collect_results_length:
  "collect_results results threshold i ks = Inr out \<Longrightarrow> length out \<le> length ks"
proof (induction ks arbitrary: i out)
  case Nil
  then show ?case by simp
next
  case (Cons k ks)
  from Cons.prems Cons.IH show ?case
    by (fastforce simp: Let_def split: sum.splits if_splits)
qed

lemma neighbour_distance_mono:
  assumes "sorted_wrt dle (distances0 results)"
    and "neighbour_distance results i = Inr a" and "neighbour_distance results j = Inr b"
    and "i < j"
  shows "dle a b"
proof (cases "distances results")
  case None
  with assms(2,3) have "a = Fin 0" "b = Fin 0" by (simp_all add: neighbour_distance_def)
  then show ?thesis by simp
next
  case (Some ds)
  show ?thesis
  proof (cases ds)
    case Nil
    with Some assms(2,3) have "a = Fin 0" "b = Fin 0" by (simp_all add: neighbour_distance_def)
    then show ?thesis by simp
  next
    case (Cons d rest)
    with Some assms(2,3) have "i < length d" "a = d ! i" "j < length d" "b = d ! j"
      by (auto simp: neighbour_distance_def item0_def split: if_splits)
    moreover from Some Cons assms(1) have "sorted_wrt dle d" by (simp add: distances0_def)
    ultimately show ?thesis using assms(4) by (simp add: sorted_wrt_nth_less)
  qed
qed

lemma collect_results_sorted:
  assumes "sorted_wrt dle (distances0 results)"
  shows "collect_results results threshold i ks = Inr out
         \<Longrightarrow> sorted_wrt (\<lambda>a b. dle b a) (map similarity out)"
proof (induction ks arbitrary: i out)
  case Nil
  then show ?case by simp
next
  case (Cons k ks)
  from Cons.prems obtain d where d: "neighbour_distance results i = Inr d"
    by (cases "neighbour_distance results i") auto
  show ?case
  proof (cases "dge (dsub (Fin 1) d) threshold")
    case False
    with Cons.prems d have "collect_results results threshold (Suc i) ks = Inr out"
      by simp
    then show ?thesis by (rule Cons.IH)
  next
    case True
    with Cons.prems d obtain content m found where
      found: "collect_results results threshold (Suc i) ks = Inr found"
      and out: "out = \<lparr>res_id = k, res_content = content, res_metadata = m,
                       similarity = dsub (Fin 1) d, distance = d\<rparr> # found"
      by (auto simp: Let_def split: sum.splits)
    have "dle (similarity r) (dsub (Fin 1) d)" if "r \<in> set found" for r
    proof -
      from collect_results_sound [OF found that] obtain j where
        j: "Suc i \<le> j" "neighbour_distance results j = Inr (distance r)"
        "similarity r = dsub (Fin 1) (distance r)"
        by blast
      from j(1) have "i < j" by simp
      from neighbour_distance_mono [OF assms d j(2) this] have "dle d (distance r)" .
      then have "dle (dsub (Fin 1) (distance r)) (dsub (Fin 1) d)" by (rule dsub_one_antimono)
      with j(3) show ?thesis by simp
    qed
    with Cons.IH [OF found] out show ?thesis by auto
  qed
qed

lemma collect_results_no_distances:
  assumes "distances results = None \<or> distances results = Some []"
    and "dle threshold (Fin 1)"
  shows "(\<forall>j. i \<le> j \<and> j < i + length ks \<longrightarrow>
             \<not> isl (item0 (documents results) j) \<and> \<not> isl (item0 (metadatas results) j))
         \<Longrightarrow> \<exists>out. collect_results results threshold i ks = Inr out \<and> map res_id out = ks"
proof (induction ks arbitrary: i)
  case Nil
  then show ?case by simp
next
  case (Cons k ks)
  from assms(1) have d: "neighbour_distance results i = Inr (Fin 0)"
    by (auto simp: neighbour_distance_def)
  from assms(2) have keep: "dge (dsub (Fin 1) (Fin 0)) threshold"
    by (simp add: dge_def round64_one)
  from Cons.prems obtain content m where
    cm: "item0 (documents results) i = Inr content" "item0 (metadatas results) i = Inr m"
    by (metis le_refl less_add_same_cancel1 length_Cons zero_less_Suc sum.collapse(2))
  from Cons.prems have "\<forall>j. Suc i \<le> j \<and> j < Suc i + length ks \<longrightarrow>
             \<not> isl (item0 (documents results) j) \<and> \<not> isl (item0 (metadatas results) j)"
    by simp
  from Cons.IH [OF this] obtain found where
    "collect_results results threshold (Suc i) ks = Inr found" "map res_id found = ks"
    by blast
  with d cm keep show ?case by (simp del: dsub.simps)
qed

lemma search_similar_mem:
  assumes "r \<in> set (search_similar query q limit threshold transcriber)"
  shows "\<exists>results out. run_query query q limit transcriber = Inr results
           \<and> collect_results results threshold 0 (neighbours results) = Inr out \<and> r \<in> set out"
proof (cases "run_query query q limit transcriber")
  case (Inl e)
  with assms show ?thesis by (simp add: search_similar_def search_similar_try_def)
next
  case (Inr results)
  show ?thesis
  proof (cases "collect_results results threshold 0 (neighbours results)")
    case (Inl e)
    with Inr assms show ?thesis by (simp add: search_similar_def search_similar_try_def)
  next
    case inner: (Inr out)
    with Inr assms show ?thesis by (simp add: search_similar_def search_similar_try_def)
  qed
qed

lemma run_query_raises:
  "\<forall>inp. isl (query inp limit) \<Longrightarrow> isl (run_query query q limit transcriber)"
  by (auto simp: run_query_def split: option.splits sum.splits)

lemma run_query_forwards_limit:
  "run_query query q limit transcriber = Inr results \<Longrightarrow> \<exists>inp. query inp limit = Inr results"
  by (auto simp: run_query_def split: option.splits sum.splits if_splits)

section \<open>Facts about chunk ids\<close>

lemma digit_char_inj: "a < 10 \<Longrightarrow> b < 10 \<Longrightarrow> digit_char a = digit_char b \<Longrightarrow> a = b"
proof -
  assume a: "a < 10" and b: "b < 10" and eq: "digit_char a = digit_char b"
  have "distinct ''0123456789''" by simp
  moreover have "a < length ''0123456789''" "b < length ''0123456789''" using a b by simp_all
  ultimately have "(''0123456789'' ! a = ''0123456789'' ! b) = (a = b)"
    by (rule nth_eq_iff_index_eq)
  with eq show ?thesis by (simp add: digit_char_def)
qed

lemma digit_char_not_underscore: "d < 10 \<Longrightarrow> digit_char d \<noteq> CHR ''_''"
proof -
  assume "d < 10"
  then have "d < length ''0123456789''" by simp
  then have "''0123456789'' ! d \<in> set ''0123456789''" by (rule nth_mem)
  moreover have "CHR ''_'' \<notin> set ''0123456789''" by simp
  ultimately show ?thesis by (auto simp: digit_char_def)
qed

lemma str_nat_nonempty: "str_nat n \<noteq> []"
  by (subst str_nat.simps) simp

lemma str_nat_no_underscore: "CHR ''_'' \<notin> set (str_nat n)"
proof (induction n rule: str_nat.induct)
  case (1 n)
  show ?case
  proof (cases "n < 10")
    case True
    then show ?thesis
      using digit_char_not_underscore [of n] by (subst str_nat.simps) auto
  next
    case False
    with "1.IH" digit_char_not_underscore [of "n mod 10"] show ?thesis
      by (subst str_nat.simps) auto
  qed
qed

lemma str_nat_inj: "str_nat n = str_nat m \<Longrightarrow> n = m"
proof (induction n arbitrary: m rule: str_nat.induct)
  case (1 n)
  show ?case
  proof (cases "n < 10")
    case n: True
    show ?thesis
    proof (cases "m < 10")
      case True
      with n "1.prems" show ?thesis
        by (simp add: str_nat.simps [of n] str_nat.simps [of m] digit_char_inj)
    next
      case False
      with n "1.prems" str_nat_nonempty [of "m div 10"] show ?thesis
        by (simp add: str_nat.simps [of n] str_nat.simps [of m])
    qed
  next
    case n: False
    show ?thesis
    proof (cases "m < 10")
      case True
      with n "1.prems" str_nat_nonempty [of "n div 10"] show ?thesis
        by (simp add: str_nat.simps [of n] str_nat.simps [of m])
    next
      case False
      with n "1.prems" have "str_nat (n div 10) = str_nat (m div 10)"
        and "digit_char (n mod 10) = digit_char (m mod 10)"
        by (simp_all add: str_nat.simps [of n] str_nat.simps [of m])
      with "1.IH" [OF n] have "n div 10 = m div 10" and "n mod 10 = m mod 10"
        by (auto intro: digit_char_inj)
      then show ?thesis by (metis div_mult_mod_eq)
    qed
  qed
qed

lemma split_at_last_separator:
  "u \<notin> set ds \<Longrightarrow> u \<notin> set es \<Longrightarrow> xs @ u # ds = ys @ u # es \<Longrightarrow> xs = ys \<and> ds = es"
proof (induction xs arbitrary: ys)
  case Nil
  then show ?case by (cases ys) auto
next
  case (Cons x xs)
  then show ?case by (cases ys) auto
qed

lemma chunk_id_inj: "chunk_id f i = chunk_id g j \<Longrightarrow> f = g \<and> i = j"
proof -
  assume "chunk_id f i = chunk_id g j"
  then have "f @ CHR ''_'' # str_nat i = g @ CHR ''_'' # str_nat j"
    by (simp add: chunk_id_def)
  from split_at_last_separator [OF str_nat_no_underscore str_nat_no_underscore this]
  show ?thesis by (auto dest: str_nat_inj)
qed

lemma chunk_id_0: "chunk_id f 0 = f @ ''_0''"
  by (simp add: chunk_id_def str_nat.simps digit_char_def)

lemma chunk_id_1: "chunk_id f (Suc 0) = f @ ''_1''"
  by (simp add: chunk_id_def str_nat.simps digit_char_def)

section \<open>Facts about the collection\<close>




lemma lookup_misses_own_chunks:
  assumes "\<forall>k \<in> fst ` set c. \<exists>i. k = chunk_id file_id i"
  shows "coll_get c [file_id] = []"
proof -
  have "chunk_id file_id i \<noteq> file_id" for i
    by (simp add: chunk_id_def)
  with assms have "\<forall>k \<in> fst ` set c. k \<noteq> file_id" by metis
  then show ?thesis by (force simp: coll_get_def filter_empty_conv)
qed

lemma coll_put_keys: "fst ` set (coll_put c k e) = insert k (fst ` set c)"
proof (induction c)
  case Nil
  then show ?case by simp
next
  case (Cons x c)
  obtain k' e' where x: "x = (k', e')" by (cases x)
  show ?case
  proof (cases "k' = k")
    case True
    with x show ?thesis by simp
  next
    case False
    with x Cons.IH show ?thesis by (simp add: insert_commute)
  qed
qed

lemma coll_put_distinct: "distinct (map fst c) \<Longrightarrow> distinct (map fst (coll_put c k e))"
proof (induction c)
  case Nil
  then show ?case by simp
next
  case (Cons x c)
  then show ?case
    using coll_put_keys [of c k e] by (cases x) (auto simp: image_iff)
qed

lemma coll_put_set:
  "distinct (map fst c) \<Longrightarrow> set (coll_put c k e) = insert (k, e) {x \<in> set c. fst x \<noteq> k}"
proof (induction c)
  case Nil
  then show ?case by simp
next
  case (Cons x c)
  then show ?case by (cases x) (auto simp: image_iff)
qed

lemma coll_upsert_distinct:
  "distinct (map fst c) \<Longrightarrow> distinct (map fst (coll_upsert c kes))"
  by (induction kes arbitrary: c) (auto simp: coll_put_distinct)

lemma coll_upsert_set:
  "distinct (map fst c) \<Longrightarrow> distinct (map fst kes)
   \<Longrightarrow> set (coll_upsert c kes) = set kes \<union> {x \<in> set c. fst x \<notin> fst ` set kes}"
proof (induction kes arbitrary: c)
  case Nil
  then show ?case by simp
next
  case (Cons ke kes)
  obtain k e where ke: "ke = (k, e)" by (cases ke)
  from Cons.prems ke have d: "distinct (map fst (coll_put c k e))" "distinct (map fst kes)"
    and k: "k \<notin> fst ` set kes"
    by (simp_all add: coll_put_distinct)
  from Cons.IH [OF d] coll_put_set [OF Cons.prems(1), of k e] ke k show ?case
    by (auto simp: image_iff)
qed

lemma stored_once:
  "distinct (map fst c) \<Longrightarrow> (k, e) \<in> set c \<Longrightarrow> (k, e') \<in> set c \<Longrightarrow> e = e'"
  by (rule eq_key_imp_eq_value)

lemma coll_delete_matched_set:
  assumes "distinct (map fst c)"
  shows "set (coll_delete c (map fst (coll_get_where c src)))
         = {x \<in> set c. source_file (meta (snd x)) \<noteq> src}"
proof -
  have "(k \<in> fst ` set (coll_get_where c src)) = (source_file (meta e) = src)"
    if "(k, e) \<in> set c" for k e
  proof
    assume "k \<in> fst ` set (coll_get_where c src)"
    then obtain e' where "(k, e') \<in> set c" "source_file (meta e') = src"
      by (auto simp: coll_get_where_def)
    with stored_once [OF assms that] show "source_file (meta e) = src" by auto
  next
    assume "source_file (meta e) = src"
    with that show "k \<in> fst ` set (coll_get_where c src)"
      by (force simp: coll_get_where_def)
  qed
  then have "(fst x \<notin> fst ` set (coll_get_where c src)) = (source_file (meta (snd x)) \<noteq> src)"
    if "x \<in> set c" for x
    using that by (cases x) simp
  then show ?thesis by (auto simp: coll_delete_def case_prod_unfold)
qed

lemma key_has_entry: "(k \<in> fst ` set c) = (\<exists>e. (k, e) \<in> set c)"
  by force

lemma upsert_items_keys:
  "map fst (upsert_items env p f h chunks embs) = map (chunk_id f) [0..<length chunks]"
  by (simp add: upsert_items_def comp_def)

lemma upsert_items_distinct: "distinct (map fst (upsert_items env p f h chunks embs))"
  unfolding upsert_items_keys
  by (simp add: distinct_map inj_on_def) (blast dest: chunk_id_inj)

lemma upsert_items_key_set:
  "(k \<in> fst ` set (upsert_items env p f h chunks embs)) = (\<exists>i < length chunks. k = chunk_id f i)"
proof -
  have "fst ` set (upsert_items env p f h chunks embs)
      = set (map fst (upsert_items env p f h chunks embs))"
    by simp
  also have "\<dots> = chunk_id f ` {0..<length chunks}"
    unfolding upsert_items_keys by simp
  finally show ?thesis by auto
qed

lemma upsert_items_entry:
  "(k, e) \<in> set (upsert_items env p f h chunks embs)
   \<Longrightarrow> (\<exists>i < length chunks. k = chunk_id f i) \<and> content_hash (meta e) = h
       \<and> source_file (meta e) = path_str p"
  by (auto simp: upsert_items_def chunk_metadata_def)

lemma embed_chunks_raises:
  "\<exists>chunk \<in> set chunks. isl (g chunk) \<Longrightarrow> isl (fst (embed_chunks g chunks))"
proof (induction chunks)
  case Nil
  then show ?case by simp
next
  case (Cons chunk chunks)
  show ?case
  proof (cases "g chunk")
    case (Inl e)
    then show ?thesis by simp
  next
    case (Inr v)
    with Cons.prems have "\<exists>chunk \<in> set chunks. isl (g chunk)" by auto
    from Cons.IH [OF this] Inr show ?thesis
      by (cases "embed_chunks g chunks") (auto split: sum.splits)
  qed
qed

section \<open>What add-transcript and remove-transcript leave in the collection\<close>

lemma add_transcript_store:
  assumes "add_transcript env c p tr = Some out"
  shows "store out = c
     \<or> (\<exists>raw chunks embs. read_file env p = Content raw
           \<and> chunk_text (strip raw) 500 50 = Some chunks
           \<and> store out = coll_upsert c
                (upsert_items env p (path_abs p) (md5_hexdigest env (strip raw)) chunks embs))"
proof (cases "read_file env p")
  case Absent
  with assms have "store out = c"
    by (auto simp: add_transcript_def add_transcript_try_def)
  then show ?thesis ..
next
  case Unreadable
  with assms have "store out = c"
    by (auto simp: add_transcript_def add_transcript_try_def)
  then show ?thesis ..
next
  case (Content raw)
  show ?thesis
  proof (cases "strip raw = []")
    case True
    with Content assms have "store out = c"
      by (auto simp: add_transcript_def add_transcript_try_def)
    then show ?thesis ..
  next
    case nonblank: False
    show ?thesis
    proof (cases "get_raises env")
      case True
      with Content nonblank assms have "store out = c"
        by (auto simp: add_transcript_def add_transcript_try_def store_get_def Let_def)
      then show ?thesis ..
    next
      case get_ok: False
      show ?thesis
      proof (cases "already_up_to_date (coll_get c [path_abs p]) (md5_hexdigest env (strip raw))")
        case True
        with Content nonblank get_ok assms have "store out = c"
          by (auto simp: add_transcript_def add_transcript_try_def store_get_def Let_def)
        then show ?thesis ..
      next
        case changed: False
        show ?thesis
        proof (cases "chunk_text (strip raw) 500 50")
          case None
          with Content nonblank get_ok changed assms show ?thesis
            by (simp add: add_transcript_def add_transcript_try_def store_get_def Let_def)
        next
          case (Some chunks)
          obtain embs calls where ge: "generate_embeddings tr chunks = (embs, calls)"
            by (cases "generate_embeddings tr chunks")
          show ?thesis
          proof (cases "upsert_raises env")
            case True
            with Content nonblank get_ok changed Some ge assms have "store out = c"
              by (auto simp: add_transcript_def add_transcript_try_def store_get_def
                  store_upsert_def Let_def)
            then show ?thesis ..
          next
            case up: False
            with Content nonblank get_ok changed Some ge assms
            have "store out = coll_upsert c
                (upsert_items env p (path_abs p) (md5_hexdigest env (strip raw)) chunks embs)"
              by (auto simp: add_transcript_def add_transcript_try_def store_get_def
                  store_upsert_def Let_def)
            with Content Some show ?thesis by blast
          qed
        qed
      qed
    qed
  qed
qed

lemma remove_transcript_store:
  "snd (remove_transcript env c p) = c
   \<or> snd (remove_transcript env c p) = coll_delete c (map fst (coll_get_where c (path_str p)))"
  by (simp add: remove_transcript_def remove_transcript_try_def store_get_where_def
      store_delete_def)

section \<open>The invariant of the index\<close>

lemma transcript_record_okI:
  assumes "\<And>i. (chunk_id f i \<in> fst ` set c) = (i < N)"
    and "\<And>i j e e'. (chunk_id f i, e) \<in> set c \<Longrightarrow> (chunk_id f j, e') \<in> set c
          \<Longrightarrow> content_hash (meta e) = content_hash (meta e')"
  shows "transcript_record_ok c f"
  unfolding transcript_record_ok_def
proof (intro exI [of _ N] conjI allI impI)
  fix i show "(chunk_id f i \<in> fst ` set c) = (i < N)" by (rule assms(1))
next
  fix i j e e'
  assume "(chunk_id f i, e) \<in> set c" "(chunk_id f j, e') \<in> set c"
  then show "content_hash (meta e) = content_hash (meta e')" by (rule assms(2))
qed

lemma one_sourceI:
  assumes "\<And>i j e e'. (chunk_id f i, e) \<in> set c \<Longrightarrow> (chunk_id f j, e') \<in> set c
          \<Longrightarrow> source_file (meta e) = source_file (meta e')"
  shows "one_source c f"
  unfolding one_source_def
proof (intro allI impI)
  fix i j e e'
  assume "(chunk_id f i, e) \<in> set c" "(chunk_id f j, e') \<in> set c"
  then show "source_file (meta e) = source_file (meta e')" by (rule assms)
qed

lemma transcript_record_okD:
  assumes "transcript_record_ok c f"
  obtains N where "\<forall>i. (chunk_id f i \<in> fst ` set c) = (i < N)"
    and "\<forall>i j e e'. (chunk_id f i, e) \<in> set c \<longrightarrow> (chunk_id f j, e') \<in> set c
          \<longrightarrow> content_hash (meta e) = content_hash (meta e')"
  using assms unfolding transcript_record_ok_def by (elim exE conjE)

lemma one_sourceD:
  "one_source c f \<Longrightarrow> (chunk_id f i, e) \<in> set c \<Longrightarrow> (chunk_id f j, e') \<in> set c
   \<Longrightarrow> source_file (meta e) = source_file (meta e')"
  unfolding one_source_def by blast

lemma index_inv_upsert:
  assumes inv: "index_inv c"
    and grow: "\<forall>i. chunk_id f i \<in> fst ` set c \<longrightarrow> i < length chunks"
  shows "index_inv (coll_upsert c (upsert_items env p f h chunks embs))"
proof -
  define items where "items = upsert_items env p f h chunks embs"
  define c' where "c' = coll_upsert c items"
  from inv have dc: "distinct (map fst c)" by (simp add: index_inv_def)
  have di: "distinct (map fst items)" unfolding items_def by (rule upsert_items_distinct)
  have set_c: "set c' = set items \<union> {x \<in> set c. fst x \<notin> fst ` set items}"
    unfolding c'_def using dc di by (rule coll_upsert_set)
  have item_key: "(k \<in> fst ` set items) = (\<exists>i < length chunks. k = chunk_id f i)" for k
    unfolding items_def by (rule upsert_items_key_set)
  have item_entry: "(k, e) \<in> set items \<Longrightarrow> content_hash (meta e) = h
       \<and> source_file (meta e) = path_str p" for k e
    unfolding items_def using upsert_items_entry by blast
  have entry: "((k, e) \<in> set c') =
      ((k, e) \<in> set items \<or> ((k, e) \<in> set c \<and> k \<notin> fst ` set items))" for k e
    unfolding set_c by simp
  have keys: "(k \<in> fst ` set c') = (k \<in> fst ` set items \<or> k \<in> fst ` set c)" for k
    unfolding key_has_entry entry by blast
  have own_key: "chunk_id f i \<in> fst ` set items" if "chunk_id f i \<in> fst ` set c" for i
  proof -
    from grow that have "i < length chunks" by blast
    then show ?thesis unfolding item_key by blast
  qed
  have own: "(chunk_id f i, e) \<in> set items" if a: "(chunk_id f i, e) \<in> set c'" for i e
  proof (rule ccontr)
    assume "(chunk_id f i, e) \<notin> set items"
    with a have in_c: "(chunk_id f i, e) \<in> set c" and out: "chunk_id f i \<notin> fst ` set items"
      unfolding entry by simp_all
    from in_c have "chunk_id f i \<in> fst ` set c" unfolding key_has_entry by blast
    from own_key [OF this] out show False by simp
  qed
  have other: "chunk_id g i \<notin> fst ` set items" if "g \<noteq> f" for g i
  proof
    assume "chunk_id g i \<in> fst ` set items"
    then obtain j where "chunk_id g i = chunk_id f j" unfolding item_key by blast
    from chunk_id_inj [OF this] that show False by simp
  qed
  have rec: "transcript_record_ok c' g \<and> one_source c' g" for g
  proof (cases "g = f")
    case True
    have present: "(chunk_id f i \<in> fst ` set c') = (i < length chunks)" for i
    proof
      assume "chunk_id f i \<in> fst ` set c'"
      then have "chunk_id f i \<in> fst ` set items" unfolding keys using own_key by blast
      then obtain j where j: "j < length chunks" "chunk_id f i = chunk_id f j"
        unfolding item_key by blast
      from chunk_id_inj [OF j(2)] j(1) show "i < length chunks" by simp
    next
      assume "i < length chunks"
      then have "chunk_id f i \<in> fst ` set items" unfolding item_key by blast
      then show "chunk_id f i \<in> fst ` set c'" unfolding keys by simp
    qed
    have uniform: "content_hash (meta e) = h \<and> source_file (meta e) = path_str p"
      if "(chunk_id f i, e) \<in> set c'" for i e
      using item_entry [OF own [OF that]] .
    have "transcript_record_ok c' f"
    proof (rule transcript_record_okI [where N = "length chunks"])
      fix i show "(chunk_id f i \<in> fst ` set c') = (i < length chunks)" by (rule present)
    next
      fix i j e e'
      assume "(chunk_id f i, e) \<in> set c'" "(chunk_id f j, e') \<in> set c'"
      from uniform [OF this(1)] uniform [OF this(2)]
      show "content_hash (meta e) = content_hash (meta e')" by simp
    qed
    moreover have "one_source c' f"
    proof (rule one_sourceI)
      fix i j e e'
      assume "(chunk_id f i, e) \<in> set c'" "(chunk_id f j, e') \<in> set c'"
      from uniform [OF this(1)] uniform [OF this(2)]
      show "source_file (meta e) = source_file (meta e')" by simp
    qed
    ultimately show ?thesis using True by simp
  next
    case False
    from inv have ok: "transcript_record_ok c g" and src: "one_source c g"
      by (simp_all add: index_inv_def)
    from ok obtain N where n: "\<forall>i. (chunk_id g i \<in> fst ` set c) = (i < N)"
      and hash: "\<forall>i j e e'. (chunk_id g i, e) \<in> set c \<longrightarrow> (chunk_id g j, e') \<in> set c
          \<longrightarrow> content_hash (meta e) = content_hash (meta e')"
      by (rule transcript_record_okD)
    have same: "((chunk_id g i, e) \<in> set c') = ((chunk_id g i, e) \<in> set c)" for i e
    proof -
      have "(chunk_id g i, e) \<notin> set items"
        using other [OF False, of i] unfolding key_has_entry by blast
      then show ?thesis unfolding entry using other [OF False, of i] by simp
    qed
    have "transcript_record_ok c' g"
    proof (rule transcript_record_okI [where N = N])
      fix i show "(chunk_id g i \<in> fst ` set c') = (i < N)"
        unfolding keys using other [OF False, of i] n by simp
    next
      fix i j e e'
      assume "(chunk_id g i, e) \<in> set c'" "(chunk_id g j, e') \<in> set c'"
      then have "(chunk_id g i, e) \<in> set c" "(chunk_id g j, e') \<in> set c"
        unfolding same by simp_all
      with hash show "content_hash (meta e) = content_hash (meta e')" by blast
    qed
    moreover have "one_source c' g"
    proof (rule one_sourceI)
      fix i j e e'
      assume "(chunk_id g i, e) \<in> set c'" "(chunk_id g j, e') \<in> set c'"
      then have "(chunk_id g i, e) \<in> set c" "(chunk_id g j, e') \<in> set c"
        unfolding same by simp_all
      with src show "source_file (meta e) = source_file (meta e')" by (rule one_sourceD)
    qed
    ultimately show ?thesis by simp
  qed
  from dc have "distinct (map fst c')" unfolding c'_def by (rule coll_upsert_distinct)
  with rec have "index_inv c'" by (simp add: index_inv_def)
  then show ?thesis unfolding c'_def items_def .
qed

lemma index_inv_delete:
  assumes inv: "index_inv c"
  shows "index_inv (coll_delete c (map fst (coll_get_where c src)))"
proof -
  define c' where "c' = coll_delete c (map fst (coll_get_where c src))"
  from inv have dc: "distinct (map fst c)" by (simp add: index_inv_def)
  have set_c: "set c' = {x \<in> set c. source_file (meta (snd x)) \<noteq> src}"
    unfolding c'_def using dc by (rule coll_delete_matched_set)
  have entry: "((k, e) \<in> set c') = ((k, e) \<in> set c \<and> source_file (meta e) \<noteq> src)" for k e
    unfolding set_c by simp
  have rec: "transcript_record_ok c' g \<and> one_source c' g" for g
  proof -
    from inv have ok: "transcript_record_ok c g" and src1: "one_source c g"
      by (simp_all add: index_inv_def)
    from ok obtain N where n: "\<forall>i. (chunk_id g i \<in> fst ` set c) = (i < N)"
      and hash: "\<forall>i j e e'. (chunk_id g i, e) \<in> set c \<longrightarrow> (chunk_id g j, e') \<in> set c
          \<longrightarrow> content_hash (meta e) = content_hash (meta e')"
      by (rule transcript_record_okD)
    have hash': "content_hash (meta e) = content_hash (meta e')"
      if "(chunk_id g i, e) \<in> set c'" "(chunk_id g j, e') \<in> set c'" for i j e e'
    proof -
      from that have "(chunk_id g i, e) \<in> set c" "(chunk_id g j, e') \<in> set c"
        unfolding entry by simp_all
      with hash show ?thesis by blast
    qed
    have src': "one_source c' g"
    proof (rule one_sourceI)
      fix i j e e'
      assume "(chunk_id g i, e) \<in> set c'" "(chunk_id g j, e') \<in> set c'"
      then have "(chunk_id g i, e) \<in> set c" "(chunk_id g j, e') \<in> set c"
        unfolding entry by simp_all
      with src1 show "source_file (meta e) = source_file (meta e')" by (rule one_sourceD)
    qed
    have "transcript_record_ok c' g"
    proof (cases "\<exists>i e. (chunk_id g i, e) \<in> set c \<and> source_file (meta e) = src")
      case True
      then obtain i0 e0 where e0: "(chunk_id g i0, e0) \<in> set c" "source_file (meta e0) = src"
        by blast
      have gone: "(chunk_id g i \<in> fst ` set c') = (i < 0)" for i
      proof -
        have "\<not> (\<exists>e. (chunk_id g i, e) \<in> set c')"
        proof
          assume "\<exists>e. (chunk_id g i, e) \<in> set c'"
          then obtain e where e: "(chunk_id g i, e) \<in> set c" "source_file (meta e) \<noteq> src"
            unfolding entry by blast
          from one_sourceD [OF src1 e(1) e0(1)] e0(2) e(2) show False by simp
        qed
        then show ?thesis unfolding key_has_entry by simp
      qed
      show ?thesis
      proof (rule transcript_record_okI [where N = 0])
        fix i show "(chunk_id g i \<in> fst ` set c') = (i < 0)" by (rule gone)
      next
        fix i j e e'
        assume "(chunk_id g i, e) \<in> set c'" "(chunk_id g j, e') \<in> set c'"
        then show "content_hash (meta e) = content_hash (meta e')" by (rule hash')
      qed
    next
      case False
      have kept: "(chunk_id g i \<in> fst ` set c') = (i < N)" for i
      proof -
        have "(\<exists>e. (chunk_id g i, e) \<in> set c') = (\<exists>e. (chunk_id g i, e) \<in> set c)"
          unfolding entry using False by blast
        then have "(chunk_id g i \<in> fst ` set c') = (chunk_id g i \<in> fst ` set c)"
          unfolding key_has_entry .
        with n show ?thesis by simp
      qed
      show ?thesis
      proof (rule transcript_record_okI [where N = N])
        fix i show "(chunk_id g i \<in> fst ` set c') = (i < N)" by (rule kept)
      next
        fix i j e e'
        assume "(chunk_id g i, e) \<in> set c'" "(chunk_id g j, e') \<in> set c'"
        then show "content_hash (meta e) = content_hash (meta e')" by (rule hash')
      qed
    qed
    with src' show ?thesis by simp
  qed
  have "distinct (map fst c')"
    unfolding c'_def using dc by (simp add: coll_delete_def distinct_map_filter)
  with rec have "index_inv c'" by (simp add: index_inv_def)
  then show ?thesis unfolding c'_def .
qed

lemma index_inv_empty: "index_inv []"
proof -
  have "transcript_record_ok [] g" for g
    by (rule transcript_record_okI [where N = 0]) simp_all
  moreover have "one_source [] g" for g
    by (rule one_sourceI) simp
  ultimately show ?thesis by (simp add: index_inv_def)
qed

lemma reachable_index_inv: "reachable c \<Longrightarrow> index_inv c"
proof (induction rule: reachable.induct)
  case reachable_empty
  show ?case by (rule index_inv_empty)
next
  case (reachable_add c env transcript_path transcriber out)
  from add_transcript_store [OF reachable_add.hyps(3)] show ?case
  proof
    assume "store out = c"
    with reachable_add.IH show ?thesis by simp
  next
    assume "\<exists>raw chunks embs. read_file env transcript_path = Content raw
           \<and> chunk_text (strip raw) 500 50 = Some chunks
           \<and> store out = coll_upsert c
                (upsert_items env transcript_path (path_abs transcript_path)
                   (md5_hexdigest env (strip raw)) chunks embs)"
    then obtain raw chunks embs where r: "read_file env transcript_path = Content raw"
      "chunk_text (strip raw) 500 50 = Some chunks"
      "store out = coll_upsert c
                (upsert_items env transcript_path (path_abs transcript_path)
                   (md5_hexdigest env (strip raw)) chunks embs)"
      by blast
    from reachable_add.hyps(2) r(1,2)
    have "\<forall>i. chunk_id (path_abs transcript_path) i \<in> fst ` set c \<longrightarrow> i < length chunks"
      unfolding no_shrink_def by blast
    from index_inv_upsert [OF reachable_add.IH this] r(3) show ?thesis by simp
  qed
next
  case (reachable_remove c env transcript_path b c')
  from reachable_remove.hyps(2) have c': "c' = snd (remove_transcript env c transcript_path)"
    by simp
  from remove_transcript_store [of env c transcript_path] show ?case
  proof
    assume "snd (remove_transcript env c transcript_path) = c"
    with c' reachable_remove.IH show ?thesis by simp
  next
    assume "snd (remove_transcript env c transcript_path)
        = coll_delete c (map fst (coll_get_where c (path_str transcript_path)))"
    with c' index_inv_delete [OF reachable_remove.IH, of "path_str transcript_path"]
    show ?thesis by simp
  qed
qed

section \<open>Evaluations on the sample data\<close>

lemmas add_transcript_unfold =
  add_transcript_def add_transcript_try_def store_get_def coll_get_def already_up_to_date_def
  generate_embeddings_def store_upsert_def upsert_items_def chunk_metadata_def

lemmas sample_unfold =
  sample_env_def sample_digest_def sample_path_def sample_embedder_def failing_embedder_def
  memo_store_def memo_entry_def long_store_def shrunk_store_def long_entry_def

lemma strip_memo:
  "strip ''Alice discussed the Q3 roadmap and budget.''
     = ''Alice discussed the Q3 roadmap and budget.''"
  by (simp add: strip_def isspace_def)

lemma not_isspace_a: "\<not> isspace (CHR ''a'')"
  by (simp add: isspace_def)

lemma strip_long_text: "strip long_text = long_text"
  by (simp add: long_text_def strip_replicate not_isspace_a)

lemma long_text_nonempty: "long_text \<noteq> []"
  by (simp add: long_text_def)

lemma strip_b: "strip ''b'' = ''b''"
  by (simp add: strip_def isspace_def)

lemma digest_long: "sample_digest long_text = ''9b315a8da54c0d44cf4f76162cfea83c''"
  by (simp add: sample_digest_def long_text_def)

lemma rfind_long_word:
  assumes "0 \<le> a" and "a \<le> 51" and "52 \<le> b" and "b \<le> 502"
  shows "rfind (replicate 51 (CHR ''a'') @ CHR '' '' # replicate 450 (CHR ''b'')) (CHR '' '') a b = 51"
proof -
  let ?t = "replicate 51 (CHR ''a'') @ CHR '' '' # replicate 450 (CHR ''b'')"
  have "rfind_range ?t (CHR '' '') (nat a) (nat b) = int 51"
  proof (rule rfind_range_last)
    show "51 < nat b" using assms by simp
    show "nat a \<le> 51" using assms by simp
    show "?t ! 51 = CHR '' ''" by (simp add: nth_append)
    show "\<forall>i. 51 < i \<and> i < nat b \<longrightarrow> ?t ! i \<noteq> CHR '' ''"
      using assms by (auto simp: nth_append nth_Cons')
  qed
  with assms show ?thesis by (simp add: rfind_def norm_index_def)
qed

lemma chunk_text_long_text:
  "chunk_text long_text 500 50 = Some [replicate 500 (CHR ''a''), replicate 51 (CHR ''a'')]"
proof -
  have len: "int (length long_text) = 501" by (simp add: long_text_def)
  have nosp: "rfind long_text (CHR '' '') a b = - 1" for a b
    by (rule rfind_absent) (simp add: long_text_def)
  have s0: "strip (slice long_text 0 500) = replicate 500 (CHR ''a'')"
    by (simp add: slice_def norm_index_def long_text_def strip_replicate not_isspace_a)
  have s1: "strip (slice long_text 450 950) = replicate 51 (CHR ''a'')"
    by (simp add: slice_def norm_index_def long_text_def strip_replicate not_isspace_a)
  have st0: "chunk_step long_text 500 50 0 [] = (450, [replicate 500 (CHR ''a'')])"
    by (simp add: chunk_step_def len nosp s0 Let_def)
  have st1: "chunk_step long_text 500 50 450 [replicate 500 (CHR ''a'')]
      = (900, [replicate 500 (CHR ''a''), replicate 51 (CHR ''a'')])"
    by (simp add: chunk_step_def len nosp s1 Let_def)
  have "chunk_loop long_text 500 50 900 [replicate 500 (CHR ''a''), replicate 51 (CHR ''a'')]
      = Some [replicate 500 (CHR ''a''), replicate 51 (CHR ''a'')]"
    by (subst chunk_loop.simps) (simp add: len)
  then have "chunk_loop long_text 500 50 450 [replicate 500 (CHR ''a'')]
      = Some [replicate 500 (CHR ''a''), replicate 51 (CHR ''a'')]"
    by (subst chunk_loop.simps) (simp add: len st1)
  then have "chunk_loop long_text 500 50 0 []
      = Some [replicate 500 (CHR ''a''), replicate 51 (CHR ''a'')]"
    by (subst chunk_loop.simps) (simp add: len st0)
  then show ?thesis by (simp add: chunk_text_def len)
qed

lemma chunk_text_blank_run:
  "chunk_text ''ab      cd'' 3 0 = Some [''ab'', ''cd'']"
proof -
  have r: "rfind ''ab      cd'' (CHR '' '') 0 3 = 2" "rfind ''ab      cd'' (CHR '' '') 2 5 = 4"
    "rfind ''ab      cd'' (CHR '' '') 4 7 = 6" "rfind ''ab      cd'' (CHR '' '') 6 9 = 7"
    by code_simp+
  have s: "strip (slice ''ab      cd'' 0 2) = ''ab''" "strip (slice ''ab      cd'' 2 4) = []"
    "strip (slice ''ab      cd'' 4 6) = []" "strip (slice ''ab      cd'' 6 7) = []"
    "strip (slice ''ab      cd'' 7 10) = ''cd''"
    by code_simp+
  have "chunk_loop ''ab      cd'' 3 0 10 [''ab'', ''cd''] = Some [''ab'', ''cd'']"
    by (subst chunk_loop.simps) simp
  then have "chunk_loop ''ab      cd'' 3 0 7 [''ab''] = Some [''ab'', ''cd'']"
    by (subst chunk_loop.simps) (simp add: chunk_step_def r s)
  then have "chunk_loop ''ab      cd'' 3 0 6 [''ab''] = Some [''ab'', ''cd'']"
    by (subst chunk_loop.simps) (simp add: chunk_step_def r s)
  then have "chunk_loop ''ab      cd'' 3 0 4 [''ab''] = Some [''ab'', ''cd'']"
    by (subst chunk_loop.simps) (simp add: chunk_step_def r s)
  then have "chunk_loop ''ab      cd'' 3 0 2 [''ab''] = Some [''ab'', ''cd'']"
    by (subst chunk_loop.simps) (simp add: chunk_step_def r s)
  then have "chunk_loop ''ab      cd'' 3 0 0 [] = Some [''ab'', ''cd'']"
    by (subst chunk_loop.simps) (simp add: chunk_step_def r s)
  then show ?thesis by (simp add: chunk_text_def)
qed

lemma add_memo_first:
  "add_transcript (sample_env ''Alice discussed the Q3 roadmap and budget.'') []
      sample_path (Some sample_embedder)
     = Some \<lparr>returned = True, store = memo_store, embed_calls = 1, upsert_calls = 1\<rparr>"
  by (simp add: add_transcript_unfold sample_unfold strip_memo chunk_text_def chunk_id_0)

lemma add_memo_again:
  "add_transcript (sample_env ''Alice discussed the Q3 roadmap and budget.'') memo_store
      sample_path (Some sample_embedder)
     = Some \<lparr>returned = True, store = memo_store, embed_calls = 1, upsert_calls = 1\<rparr>"
  by (simp add: add_transcript_unfold sample_unfold strip_memo chunk_text_def chunk_id_0)

lemma add_long: "add_transcript (sample_env long_text) [] sample_path None
     = Some \<lparr>returned = True, store = long_store, embed_calls = 0, upsert_calls = 1\<rparr>"
  by (simp add: add_transcript_unfold sample_env_def sample_path_def strip_long_text
      digest_long chunk_text_long_text chunk_id_0 chunk_id_1 long_store_def long_entry_def
      long_text_nonempty Let_def)

lemma add_short: "add_transcript (sample_env ''b'') long_store sample_path None
     = Some \<lparr>returned = True, store = shrunk_store, embed_calls = 0, upsert_calls = 1\<rparr>"
  by (simp add: add_transcript_unfold sample_unfold strip_b chunk_text_def chunk_id_0)

lemma add_long_after_memo:
  "add_transcript (sample_env long_text) memo_store sample_path None
     = Some \<lparr>returned = True, store = long_store, embed_calls = 0, upsert_calls = 1\<rparr>"
  by (simp add: add_transcript_unfold sample_env_def sample_path_def strip_long_text
      digest_long chunk_text_long_text chunk_id_0 chunk_id_1 long_store_def long_entry_def
      memo_store_def memo_entry_def long_text_nonempty Let_def)

lemma no_shrink_empty: "no_shrink env [] p"
  by (simp add: no_shrink_def)

lemma no_shrink_long_after_memo: "no_shrink (sample_env long_text) memo_store sample_path"
  unfolding no_shrink_def
proof (intro allI impI)
  fix raw chunks i
  assume raw: "read_file (sample_env long_text) sample_path = Content raw"
    and chunks: "chunk_text (strip raw) 500 50 = Some chunks"
    and stored: "chunk_id (path_abs sample_path) i \<in> fst ` set memo_store"
  from raw have "raw = long_text" by (simp add: sample_env_def)
  with chunks have "chunks = [replicate 500 (CHR ''a''), replicate 51 (CHR ''a'')]"
    by (simp add: strip_long_text chunk_text_long_text)
  then have "length chunks = 2" by simp
  moreover from stored have "chunk_id ''/w/memo.txt'' i = chunk_id ''/w/memo.txt'' 0"
    by (simp add: memo_store_def sample_path_def chunk_id_0)
  then have "i = 0" by (auto dest: chunk_id_inj)
  ultimately show "i < length chunks" by simp
qed

lemma shrunk_store_not_ok: "\<not> transcript_record_ok shrunk_store ''/w/memo.txt''"
proof
  assume "transcript_record_ok shrunk_store ''/w/memo.txt''"
  then have "\<forall>i j e e'. (chunk_id ''/w/memo.txt'' i, e) \<in> set shrunk_store
      \<longrightarrow> (chunk_id ''/w/memo.txt'' j, e') \<in> set shrunk_store
      \<longrightarrow> content_hash (meta e) = content_hash (meta e')"
    unfolding transcript_record_ok_def by blast
  moreover have "(chunk_id ''/w/memo.txt'' 0, snd (shrunk_store ! 0)) \<in> set shrunk_store"
    by (simp add: chunk_id_0 shrunk_store_def)
  moreover have "(chunk_id ''/w/memo.txt'' (Suc 0), snd (shrunk_store ! 1)) \<in> set shrunk_store"
    by (simp add: chunk_id_1 shrunk_store_def)
  ultimately have "content_hash (meta (snd (shrunk_store ! 0)))
      = content_hash (meta (snd (shrunk_store ! 1)))"
    by blast
  then show False by (simp add: shrunk_store_def long_entry_def)
qed

lemmas search_similar_sample_unfold =
  search_similar_def search_similar_try_def run_query_def sample_query_def neighbours_def
  neighbour_distance_def item0_def Let_def dge_def

lemma nine_tenths_self: "dle nine_tenths nine_tenths"
  by (simp add: nine_tenths_def)

lemma nine_tenths_above_quarter: "\<not> dle nine_tenths (Fin (1 / 4))"
  by (simp add: nine_tenths_def)

lemma nine_tenths_nonneg: "dle (Fin 0) nine_tenths"
  by (simp add: nine_tenths_def)

lemma sample_query_well_behaved:
  "\<forall>inp n results. sample_query inp n = Inr results \<longrightarrow>
     int (length (neighbours results)) \<le> n \<and> sorted_wrt dle (distances0 results)"
proof (intro allI impI)
  fix inp n results
  assume run: "sample_query inp n = Inr results"
  then have n: "0 < n" by (auto simp: sample_query_def split: if_splits)
  with run have ids: "neighbours results = take (nat n) [''memo.txt_0'', ''note.txt_0'']"
    and ds: "distances0 results = take (nat n) [tenth, Fin (3 / 4)]"
    by (auto simp: sample_query_def neighbours_def distances0_def)
  have "sorted_wrt dle [tenth, Fin (3 / 4)]" by (simp add: tenth_def)
  then have "sorted_wrt dle (take (nat n) [tenth, Fin (3 / 4)])" by (rule sorted_wrt_take)
  moreover from n have "int (length (take (nat n) [''memo.txt_0'', ''note.txt_0''])) \<le> n"
    by simp
  ultimately show "int (length (neighbours results)) \<le> n \<and> sorted_wrt dle (distances0 results)"
    using ids ds by simp
qed

section \<open>Claims about the chunker\<close>

text \<open>
  C5 (short-input identity): a text no longer than \<open>chunk_size\<close> is returned as the
  one-element list holding the text itself, untrimmed; no window is cut, no word
  boundary is searched and the overlap plays no part.
\<close>

theorem chunk_text_short_identity:
  "int (length s) \<le> chunk_size \<Longrightarrow> chunk_text s chunk_size chunk_overlap = Some [s]"
  by (simp add: chunk_text_def)

theorem chunk_text_short_identity_witness:
  "int (length '' Alice discussed the Q3 roadmap and budget. '') \<le> 500
   \<and> chunk_text '' Alice discussed the Q3 roadmap and budget. '' 500 50
       = Some ['' Alice discussed the Q3 roadmap and budget. '']"
  using chunk_text_short_identity [of "'' Alice discussed the Q3 roadmap and budget. ''" 500 50]
  by simp

text \<open>
  C4 (no empty chunk), as the claim states it, fails on the short-input path: a
  whitespace-only text no longer than \<open>chunk_size\<close> comes back as it is, and it is
  empty after trimming.
\<close>

theorem chunk_text_blank_counterexample:
  "chunk_text ''  '' 500 50 = Some [''  ''] \<and> strip ''  '' = []"
  by (simp add: chunk_text_def strip_def isspace_def)

text \<open>
  C4, amended: when the text is longer than \<open>chunk_size\<close> (the windowing path), every
  chunk of the returned sequence is non-empty after trimming; a window that is empty
  after trimming is skipped.
\<close>

theorem chunk_text_long_no_empty_chunk:
  assumes "chunk_size < int (length s)"
    and "chunk_text s chunk_size chunk_overlap = Some chunks"
    and "c \<in> set chunks"
  shows "strip c \<noteq> []"
proof -
  from assms(1,2) have "chunk_loop s chunk_size chunk_overlap 0 [] = Some chunks"
    by (simp add: chunk_text_def)
  then have "\<forall>c \<in> set chunks. strip c \<noteq> []"
    by (rule chunk_loop_chunks_stripped) simp
  with assms(3) show ?thesis by blast
qed

theorem chunk_text_long_no_empty_chunk_witness:
  "3 < int (length ''ab      cd'') \<and> chunk_text ''ab      cd'' 3 0 = Some [''ab'', ''cd'']
   \<and> ''cd'' \<in> set [''ab'', ''cd''] \<and> strip ''cd'' \<noteq> []"
proof -
  have len: "3 < int (length ''ab      cd'')" by simp
  have mem: "''cd'' \<in> set [''ab'', ''cd'']" by simp
  from chunk_text_long_no_empty_chunk [OF len chunk_text_blank_run mem] len mem
    chunk_text_blank_run
  show ?thesis by simp
qed

text \<open>
  C2 (chunker termination): the claim is that \<open>chunk_text\<close> returns for every text and
  every size and overlap, the defaults 500 and 50 in particular. The guard
  \<open>start \<le> 0\<close> only catches a start that falls to zero or below. On a text of 51
  letters, a space and a word of 450 letters, with the defaults, the second window
  starts at 1, is snapped back to the space at 51, and the next start is
  \<open>51 - 50 = 1\<close> again: the loop never ends.
\<close>

theorem chunk_text_long_word_diverges:
  "chunk_text (replicate 51 (CHR ''a'') @ CHR '' '' # replicate 450 (CHR ''b'')) 500 50 = None"
proof -
  let ?t = "replicate 51 (CHR ''a'') @ CHR '' '' # replicate 450 (CHR ''b'')"
  have len: "int (length ?t) = 502" by simp
  have r0: "rfind ?t (CHR '' '') 0 (0 + 500) = 51"
    by (rule rfind_long_word) simp_all
  have r1: "rfind ?t (CHR '' '') 1 (1 + 500) = 1 + 50"
    using rfind_long_word [of 1 501] by simp
  have stuck: "chunk_loop ?t 500 50 1 acc = None" for acc
    by (rule chunk_loop_stuck [OF _ _ _ r1]) simp_all
  have first: "fst (chunk_step ?t 500 50 0 []) = 1"
    using r0 by (simp add: chunk_step_def Let_def)
  obtain acc where "chunk_step ?t 500 50 0 [] = (1, acc)"
    using first by (cases "chunk_step ?t 500 50 0 []") simp
  then have "chunk_loop ?t 500 50 0 [] = None"
    using stuck [of acc] by (subst chunk_loop.simps) (simp only: len, simp)
  then show ?thesis by (simp only: chunk_text_def len, simp)
qed

section \<open>Claims about search\<close>

text \<open>
  C6 (threshold filter): every result returned by \<open>search_similar\<close> belongs to a
  neighbour of the underlying query result, its similarity is the float \<open>1.0\<close> minus
  the distance taken for that neighbour, it passed the test \<open>similarity >= threshold\<close>,
  and its similarity is not below the threshold.
\<close>

theorem search_similar_threshold_filter:
  assumes "r \<in> set (search_similar query q limit threshold transcriber)"
  shows "\<exists>results j. run_query query q limit transcriber = Inr results
           \<and> j < length (neighbours results) \<and> res_id r = neighbours results ! j
           \<and> neighbour_distance results j = Inr (distance r)
           \<and> similarity r = dsub (Fin 1) (distance r)
           \<and> dge (similarity r) threshold \<and> \<not> dlt (similarity r) threshold"
proof -
  from search_similar_mem [OF assms] obtain results out where
    run: "run_query query q limit transcriber = Inr results"
    and out: "collect_results results threshold 0 (neighbours results) = Inr out"
    and mem: "r \<in> set out"
    by blast
  from collect_results_sound [OF out mem] obtain j where
    j: "j < length (neighbours results)" "res_id r = neighbours results ! j"
    "neighbour_distance results j = Inr (distance r)"
    "similarity r = dsub (Fin 1) (distance r)" "dge (similarity r) threshold"
    by auto
  from j(5) have "\<not> dlt (similarity r) threshold"
    unfolding dge_def by (rule dle_not_dlt)
  with run j show ?thesis by blast
qed

text \<open>
  The sample query at threshold \<open>0.9\<close>: the neighbour at distance \<open>0.1\<close> has similarity
  \<open>1.0 - 0.1\<close>, which is the float \<open>0.9\<close>, and is kept; the neighbour at distance \<open>0.75\<close>
  is dropped.
\<close>

theorem search_similar_threshold_filter_witness:
  "search_similar sample_query ''memo'' 5 nine_tenths None =
     [\<lparr>res_id = ''memo.txt_0'', res_content = ''memo'', res_metadata = sample_meta,
       similarity = nine_tenths, distance = tenth\<rparr>]
   \<and> (\<exists>results j. run_query sample_query ''memo'' 5 None = Inr results
           \<and> j < length (neighbours results) \<and> ''memo.txt_0'' = neighbours results ! j
           \<and> neighbour_distance results j = Inr tenth
           \<and> nine_tenths = dsub (Fin 1) tenth
           \<and> dge nine_tenths nine_tenths \<and> \<not> dlt nine_tenths nine_tenths)"
proof -
  let ?r = "\<lparr>res_id = ''memo.txt_0'', res_content = ''memo'', res_metadata = sample_meta,
       similarity = nine_tenths, distance = tenth\<rparr>"
  have out: "search_similar sample_query ''memo'' 5 nine_tenths None = [?r]"
    by (simp add: search_similar_sample_unfold one_minus_tenth round64_quarter
        nine_tenths_self nine_tenths_above_quarter)
  then have "?r \<in> set (search_similar sample_query ''memo'' 5 nine_tenths None)" by simp
  from search_similar_threshold_filter [OF this] out show ?thesis by simp
qed

text \<open>
  C7 (similarity ordering): when the underlying query returns at most \<open>n_results\<close>
  neighbours, in ascending order of distance, \<open>search_similar\<close> with limit \<open>k\<close> returns
  at most \<open>k\<close> results, in non-increasing order of similarity; the manager passes its
  limit on as \<open>n_results\<close>, keeps the order of the query and does not sort.
\<close>

theorem search_similar_ordering:
  assumes "\<forall>inp n results. query inp n = Inr results \<longrightarrow>
             int (length (neighbours results)) \<le> n \<and> sorted_wrt dle (distances0 results)"
  shows "length (search_similar query q limit threshold transcriber) \<le> nat limit
         \<and> sorted_wrt (\<lambda>a b. dle b a)
              (map similarity (search_similar query q limit threshold transcriber))"
proof (cases "search_similar_try query q limit threshold transcriber")
  case (Inl e)
  then show ?thesis by (simp add: search_similar_def)
next
  case (Inr out)
  then obtain results where
    run: "run_query query q limit transcriber = Inr results"
    and out: "collect_results results threshold 0 (neighbours results) = Inr out"
    by (auto simp: search_similar_try_def split: sum.splits)
  from run_query_forwards_limit [OF run] obtain inp where "query inp limit = Inr results" ..
  with assms have lim: "int (length (neighbours results)) \<le> limit"
    and srt: "sorted_wrt dle (distances0 results)"
    by blast+
  from collect_results_length [OF out] lim have "length out \<le> nat limit" by simp
  moreover from collect_results_sorted [OF srt out]
  have "sorted_wrt (\<lambda>a b. dle b a) (map similarity out)" .
  ultimately show ?thesis using Inr by (simp add: search_similar_def)
qed

text \<open>
  The sample query with limit 2 returns its two neighbours, similarities \<open>0.9\<close> and
  \<open>0.25\<close>; with limit 1 it returns the nearest one only.
\<close>

theorem search_similar_ordering_witness:
  "map similarity (search_similar sample_query ''memo'' 2 (Fin 0) None) = [nine_tenths, Fin (1 / 4)]
   \<and> map res_id (search_similar sample_query ''memo'' 1 (Fin 0) None) = [''memo.txt_0'']
   \<and> length (search_similar sample_query ''memo'' 2 (Fin 0) None) \<le> nat 2
   \<and> length (search_similar sample_query ''memo'' 1 (Fin 0) None) \<le> nat 1
   \<and> sorted_wrt (\<lambda>a b. dle b a)
        (map similarity (search_similar sample_query ''memo'' 2 (Fin 0) None))"
proof -
  have two: "map similarity (search_similar sample_query ''memo'' 2 (Fin 0) None)
      = [nine_tenths, Fin (1 / 4)]"
    by (simp add: search_similar_sample_unfold one_minus_tenth round64_quarter
        nine_tenths_nonneg)
  have one: "map res_id (search_similar sample_query ''memo'' 1 (Fin 0) None) = [''memo.txt_0'']"
    by (simp add: search_similar_sample_unfold one_minus_tenth nine_tenths_nonneg)
  from search_similar_ordering [OF sample_query_well_behaved, of "''memo''" 2 "Fin 0" None]
    search_similar_ordering [OF sample_query_well_behaved, of "''memo''" 1 "Fin 0" None]
    two one
  show ?thesis by blast
qed

text \<open>
  C10 (missing-distance default): when the query result has no distances (the field
  is absent or an empty list), every returned neighbour has distance 0 and similarity
  1; and when the threshold is at most 1 and the result holds a document and a
  metadata value for each neighbour id, every neighbour is returned.
\<close>

theorem search_similar_missing_distances:
  assumes "run_query query q limit transcriber = Inr results"
    and "distances results = None \<or> distances results = Some []"
  shows "(\<forall>r \<in> set (search_similar query q limit threshold transcriber).
            distance r = Fin 0 \<and> similarity r = Fin 1)
         \<and> (dle threshold (Fin 1)
              \<and> (\<forall>j < length (neighbours results).
                    \<not> isl (item0 (documents results) j) \<and> \<not> isl (item0 (metadatas results) j))
            \<longrightarrow> map res_id (search_similar query q limit threshold transcriber)
                  = neighbours results)"
proof (intro conjI ballI impI)
  fix r
  assume "r \<in> set (search_similar query q limit threshold transcriber)"
  from search_similar_mem [OF this] assms(1) obtain out where
    out: "collect_results results threshold 0 (neighbours results) = Inr out"
    and mem: "r \<in> set out"
    by auto
  from collect_results_sound [OF out mem] obtain j where
    j: "neighbour_distance results j = Inr (distance r)"
    "similarity r = dsub (Fin 1) (distance r)"
    by blast
  from assms(2) have "neighbour_distance results j = Inr (Fin 0)"
    by (auto simp: neighbour_distance_def)
  with j show "distance r = Fin 0" by simp
  with j show "similarity r = Fin 1" by (simp add: round64_one)
next
  assume wf: "dle threshold (Fin 1)
              \<and> (\<forall>j < length (neighbours results).
                    \<not> isl (item0 (documents results) j) \<and> \<not> isl (item0 (metadatas results) j))"
  then have "\<forall>j. 0 \<le> j \<and> j < 0 + length (neighbours results) \<longrightarrow>
             \<not> isl (item0 (documents results) j) \<and> \<not> isl (item0 (metadatas results) j)"
    by simp
  from collect_results_no_distances [OF assms(2) _ this] wf obtain out where
    "collect_results results threshold 0 (neighbours results) = Inr out"
    "map res_id out = neighbours results"
    by blast
  with assms(1) show "map res_id (search_similar query q limit threshold transcriber)
                  = neighbours results"
    by (simp add: search_similar_def search_similar_try_def)
qed

theorem search_similar_missing_distances_witness:
  "run_query sample_query_no_distances ''memo'' 5 None =
      Inr \<lparr>ids = [[''memo.txt_0'', ''note.txt_0'']], documents = [[''memo'', ''note'']],
          metadatas = [[sample_meta, sample_meta]], distances = None\<rparr>
   \<and> search_similar sample_query_no_distances ''memo'' 5 (Fin 1) None =
       [\<lparr>res_id = ''memo.txt_0'', res_content = ''memo'', res_metadata = sample_meta,
         similarity = Fin 1, distance = Fin 0\<rparr>,
        \<lparr>res_id = ''note.txt_0'', res_content = ''note'', res_metadata = sample_meta,
         similarity = Fin 1, distance = Fin 0\<rparr>]
   \<and> map res_id (search_similar sample_query_no_distances ''memo'' 5 (Fin 1) None)
       = [''memo.txt_0'', ''note.txt_0'']"
proof -
  let ?res = "\<lparr>ids = [[''memo.txt_0'', ''note.txt_0'']], documents = [[''memo'', ''note'']],
          metadatas = [[sample_meta, sample_meta]], distances = None\<rparr>"
  have run: "run_query sample_query_no_distances ''memo'' 5 None = Inr ?res"
    by (simp add: run_query_def sample_query_no_distances_def)
  have nod: "distances ?res = None \<or> distances ?res = Some []" by simp
  have wf: "dle (Fin 1) (Fin 1) \<and> (\<forall>j < length (neighbours ?res).
               \<not> isl (item0 (documents ?res) j) \<and> \<not> isl (item0 (metadatas ?res) j))"
    by (simp add: neighbours_def item0_def)
  have out: "search_similar sample_query_no_distances ''memo'' 5 (Fin 1) None =
       [\<lparr>res_id = ''memo.txt_0'', res_content = ''memo'', res_metadata = sample_meta,
         similarity = Fin 1, distance = Fin 0\<rparr>,
        \<lparr>res_id = ''note.txt_0'', res_content = ''note'', res_metadata = sample_meta,
         similarity = Fin 1, distance = Fin 0\<rparr>]"
    by (simp add: search_similar_def search_similar_try_def run_query_def
        sample_query_no_distances_def neighbours_def neighbour_distance_def item0_def Let_def
        dge_def round64_one)
  from search_similar_missing_distances [OF run nod, of "Fin 1"] wf
  have "map res_id (search_similar sample_query_no_distances ''memo'' 5 (Fin 1) None)
       = neighbours ?res"
    by blast
  with run out show ?thesis by (simp add: neighbours_def)
qed

section \<open>Claims about the index\<close>

text \<open>
  C1 (idempotent re-add): the claim is that a second \<open>add_transcript\<close> of an unchanged
  file finds the stored chunk, compares the hashes and returns true with no embedding
  call and no upsert. The code asks the collection for the id \<open>file_id\<close>, while the
  chunks are stored under \<open>file_id_0\<close>, \<open>file_id_1\<close>, ...: the lookup finds nothing and
  the second call embeds and upserts again (\<open>lookup_misses_own_chunks\<close>: no chunk id
  of a file equals its file id). Below, the first call on the empty
  collection and the second call on its result, for the one-chunk sample memo: both
  make one embedding call and one upsert.
\<close>

theorem add_transcript_unchanged_reembeds:
  "add_transcript (sample_env ''Alice discussed the Q3 roadmap and budget.'') []
      sample_path (Some sample_embedder)
     = Some \<lparr>returned = True, store = memo_store, embed_calls = 1, upsert_calls = 1\<rparr>
   \<and> add_transcript (sample_env ''Alice discussed the Q3 roadmap and budget.'') memo_store
      sample_path (Some sample_embedder)
     = Some \<lparr>returned = True, store = memo_store, embed_calls = 1, upsert_calls = 1\<rparr>"
  using add_memo_first add_memo_again by simp



text \<open>
  C9 (fail-soft error policy), as the claim states it, fails for an embedding failure
  inside \<open>add_transcript\<close>: the inner handler resets \<open>embeddings\<close> to \<open>None\<close>, the chunks
  are upserted without vectors, and the call returns true.
\<close>

theorem add_transcript_embedding_failure_counterexample:
  "add_transcript (sample_env ''Alice discussed the Q3 roadmap and budget.'') []
      sample_path (Some failing_embedder)
     = Some \<lparr>returned = True, store = [(''/w/memo.txt_0'', memo_entry None)],
             embed_calls = 1, upsert_calls = 1\<rparr>"
  by (simp add: add_transcript_unfold sample_unfold strip_memo chunk_text_def chunk_id_0)

text \<open>
  C9, amended: no exception leaves the three operations. \<open>add_transcript\<close> returns
  false, with the collection unchanged, when the file is absent or unreadable, when
  its content is empty after trimming, and when the store's \<open>get\<close> or \<open>upsert\<close> call
  raises. An embedding call that raises inside \<open>add_transcript\<close> only drops the
  vectors: once the chunker has returned, the call upserts the chunks and returns true
  unless the upsert raises. \<open>remove_transcript\<close> returns false, with the collection
  unchanged, when a store call raises. \<open>search_similar\<close> returns the empty sequence
  when the embedding call, the query, or the reading of the query result raises.
\<close>

theorem fail_soft_policy:
  "(read_file env p = Absent \<or> read_file env p = Unreadable
      \<or> (\<exists>raw. read_file env p = Content raw \<and> (strip raw = [] \<or> get_raises env))
     \<longrightarrow> add_transcript env c p tr
          = Some \<lparr>returned = False, store = c, embed_calls = 0, upsert_calls = 0\<rparr>)
   \<and> (read_file env p = Content raw \<and> strip raw \<noteq> [] \<and> \<not> get_raises env
        \<and> \<not> already_up_to_date (coll_get c [path_abs p]) (md5_hexdigest env (strip raw))
        \<and> chunk_text (strip raw) 500 50 = Some chunks
     \<longrightarrow> add_transcript env c p tr
          = Some \<lparr>returned = (\<not> upsert_raises env),
                  store = (if upsert_raises env then c
                           else coll_upsert c
                                  (upsert_items env p (path_abs p) (md5_hexdigest env (strip raw))
                                     chunks (fst (generate_embeddings tr chunks)))),
                  embed_calls = snd (generate_embeddings tr chunks), upsert_calls = 1\<rparr>)
   \<and> ((\<exists>chunk \<in> set chunks. isl (g chunk))
     \<longrightarrow> fst (generate_embeddings (Some (Transcriber (Some g))) chunks) = None)
   \<and> (get_raises env \<or> delete_raises env \<longrightarrow> remove_transcript env c p = (False, c))
   \<and> ((\<forall>inp. isl (query inp limit)) \<longrightarrow> search_similar query q limit threshold tr = [])
   \<and> (isl (g q) \<longrightarrow> search_similar query q limit threshold (Some (Transcriber (Some g))) = [])
   \<and> (isl (search_similar_try query q limit threshold tr)
     \<longrightarrow> search_similar query q limit threshold tr = [])"
proof (intro conjI impI)
  assume "read_file env p = Absent \<or> read_file env p = Unreadable
      \<or> (\<exists>raw. read_file env p = Content raw \<and> (strip raw = [] \<or> get_raises env))"
  then show "add_transcript env c p tr
          = Some \<lparr>returned = False, store = c, embed_calls = 0, upsert_calls = 0\<rparr>"
    by (auto simp: add_transcript_def add_transcript_try_def store_get_def Let_def)
next
  assume a: "read_file env p = Content raw \<and> strip raw \<noteq> [] \<and> \<not> get_raises env
        \<and> \<not> already_up_to_date (coll_get c [path_abs p]) (md5_hexdigest env (strip raw))
        \<and> chunk_text (strip raw) 500 50 = Some chunks"
  obtain embeddings calls where ge: "generate_embeddings tr chunks = (embeddings, calls)"
    by (cases "generate_embeddings tr chunks")
  with a show "add_transcript env c p tr
          = Some \<lparr>returned = (\<not> upsert_raises env),
                  store = (if upsert_raises env then c
                           else coll_upsert c
                                  (upsert_items env p (path_abs p) (md5_hexdigest env (strip raw))
                                     chunks (fst (generate_embeddings tr chunks)))),
                  embed_calls = snd (generate_embeddings tr chunks), upsert_calls = 1\<rparr>"
    by (simp add: add_transcript_def add_transcript_try_def store_get_def store_upsert_def Let_def)
next
  assume "\<exists>chunk \<in> set chunks. isl (g chunk)"
  from embed_chunks_raises [OF this]
  show "fst (generate_embeddings (Some (Transcriber (Some g))) chunks) = None"
    by (cases "embed_chunks g chunks") (auto simp: generate_embeddings_def split: sum.splits)
next
  assume "get_raises env \<or> delete_raises env"
  then show "remove_transcript env c p = (False, c)"
    by (auto simp: remove_transcript_def remove_transcript_try_def store_get_where_def
        store_delete_def)
next
  assume "\<forall>inp. isl (query inp limit)"
  then have "isl (run_query query q limit tr)" by (rule run_query_raises)
  then show "search_similar query q limit threshold tr = []"
    by (auto simp: search_similar_def search_similar_try_def split: sum.splits)
next
  assume "isl (g q)"
  then show "search_similar query q limit threshold (Some (Transcriber (Some g))) = []"
    by (auto simp: search_similar_def search_similar_try_def run_query_def split: sum.splits)
next
  assume "isl (search_similar_try query q limit threshold tr)"
  then show "search_similar query q limit threshold tr = []"
    by (auto simp: search_similar_def split: sum.splits)
qed

theorem fail_soft_policy_witness:
  "add_transcript failing_env memo_store sample_path (Some failing_embedder)
     = Some \<lparr>returned = False, store = memo_store, embed_calls = 0, upsert_calls = 0\<rparr>
   \<and> remove_transcript failing_env memo_store sample_path = (False, memo_store)
   \<and> search_similar failing_query ''memo'' 5 (Fin 0) (Some failing_embedder) = []"
proof -
  note pol = fail_soft_policy [where env = failing_env and p = sample_path and c = memo_store
      and tr = "Some failing_embedder" and query = failing_query and limit = 5
      and q = "''memo''" and threshold = "Fin 0"]
  have "read_file failing_env sample_path = Absent" by (simp add: failing_env_def)
  moreover have "get_raises failing_env \<or> delete_raises failing_env"
    by (simp add: failing_env_def)
  moreover have "\<forall>inp. isl (failing_query inp 5)" by (simp add: failing_query_def)
  ultimately show ?thesis using pol by blast
qed

text \<open>
  C3 (transcript-record invariant), as the claim states it, fails when a file is added
  again with content that chunks into fewer chunks: \<open>add_transcript\<close> upserts the new
  chunks and deletes nothing, so the trailing chunks of the earlier add stay. Here a
  file of 501 letters is added (two chunks), rewritten to \<open>b\<close> and added again (one
  chunk): chunk 0 carries the new hash and the stale chunk 1 the old one.
\<close>

theorem shrinking_readd_counterexample:
  "add_transcript (sample_env long_text) [] sample_path None
     = Some \<lparr>returned = True, store = long_store, embed_calls = 0, upsert_calls = 1\<rparr>
   \<and> add_transcript (sample_env ''b'') long_store sample_path None
     = Some \<lparr>returned = True, store = shrunk_store, embed_calls = 0, upsert_calls = 1\<rparr>
   \<and> \<not> transcript_record_ok shrunk_store ''/w/memo.txt''"
  using add_long add_short shrunk_store_not_ok by simp

text \<open>
  C3, amended: starting from the empty collection, after any sequence of
  \<open>add_transcript\<close> and \<open>remove_transcript\<close> calls in which no \<open>add_transcript\<close> is given
  content that chunks into fewer chunks than the collection holds for that file id,
  every id is stored once and, for every file id, the collection holds either no chunk
  or exactly the chunks of the indices \<open>0..N-1\<close>, all with the same \<open>content_hash\<close>.
\<close>

theorem reachable_transcript_record_ok:
  "reachable c \<Longrightarrow> distinct (map fst c) \<and> transcript_record_ok c file_id"
  using reachable_index_inv [of c] by (simp add: index_inv_def)

theorem reachable_transcript_record_ok_witness:
  "reachable long_store \<and> distinct (map fst long_store)
   \<and> transcript_record_ok long_store ''/w/memo.txt''"
proof -
  have "reachable memo_store"
    using reachable_add [OF reachable_empty no_shrink_empty add_memo_first] by simp
  from reachable_add [OF this no_shrink_long_after_memo add_long_after_memo]
  have r: "reachable long_store" by simp
  from reachable_transcript_record_ok [OF r, of "''/w/memo.txt''"] r show ?thesis by simp
qed

end
